theory Spec2Isabelle
  imports Complex_Main "HOL-Library.Sublist" "HOL-Library.AList"
begin

section \<open>Provider state tracker\<close>

text \<open>
  The scraper (\<^verbatim>\<open>scraper.ts\<close>) and the crawler (\<^verbatim>\<open>crawler.ts\<close>) each hold the same
  rate-limit bookkeeping, written out twice with identical bodies. It is embedded once.
  The module-level object \<^verbatim>\<open>state\<close> is a total table from the three provider names to a
  \<^verbatim>\<open>ProviderState\<close>; every function that mutates it takes the table and returns the new
  one. \<^verbatim>\<open>new Date()\<close> and \<^verbatim>\<open>Date.now()\<close> are the argument \<open>now\<close>, in milliseconds.
\<close>

datatype ScrapingProvider = Exa | Firecrawl | Cheerio

record RateLimitState =
  isLimited :: bool
  resetAt :: "int option"
  errors :: nat

record ProviderState =
  available :: bool
  rateLimit :: RateLimitState
  lastSuccess :: "int option"

type_synonym ProviderTable = "ScrapingProvider \<Rightarrow> ProviderState"

definition RATE_LIMIT_COOLDOWN_MS :: int where
  "RATE_LIMIT_COOLDOWN_MS = 60 * 1000"

definition createInitialState :: ProviderState where
  "createInitialState =
     \<lparr>available = False,
      rateLimit = \<lparr>isLimited = False, resetAt = None, errors = 0\<rparr>,
      lastSuccess = None\<rparr>"

definition createRateLimitState :: ProviderTable where
  "createRateLimitState = (\<lambda>p. createInitialState)"

definition setAvailable :: "ScrapingProvider \<Rightarrow> bool \<Rightarrow> ProviderTable \<Rightarrow> ProviderTable" where
  "setAvailable provider a st = st(provider := (st provider)\<lparr>available := a\<rparr>)"

definition recordSuccess :: "ScrapingProvider \<Rightarrow> int \<Rightarrow> ProviderTable \<Rightarrow> ProviderTable" where
  "recordSuccess provider now st =
     st(provider := (st provider)
          \<lparr>lastSuccess := Some now,
           rateLimit := (rateLimit (st provider))\<lparr>isLimited := False, errors := 0\<rparr>\<rparr>)"

definition recordRateLimit :: "ScrapingProvider \<Rightarrow> int \<Rightarrow> ProviderTable \<Rightarrow> ProviderTable" where
  "recordRateLimit provider now st =
     st(provider := (st provider)
          \<lparr>rateLimit := (rateLimit (st provider))
             \<lparr>isLimited := True,
              errors := errors (rateLimit (st provider)) + 1,
              resetAt := Some (now + RATE_LIMIT_COOLDOWN_MS)\<rparr>\<rparr>)"

definition recordError :: "ScrapingProvider \<Rightarrow> ProviderTable \<Rightarrow> ProviderTable" where
  "recordError provider st =
     st(provider := (st provider)
          \<lparr>rateLimit := (rateLimit (st provider))
             \<lparr>errors := errors (rateLimit (st provider)) + 1\<rparr>\<rparr>)"

text \<open>
  \<^verbatim>\<open>isRateLimited\<close> is a read that may write: once the cooldown has elapsed it clears the
  flag and the timestamp. It returns its answer together with the table.
\<close>

definition isRateLimited :: "ScrapingProvider \<Rightarrow> int \<Rightarrow> ProviderTable \<Rightarrow> bool \<times> ProviderTable" where
  "isRateLimited provider now st =
     (if \<not> isLimited (rateLimit (st provider)) then (False, st)
      else (case resetAt (rateLimit (st provider)) of
              Some r \<Rightarrow>
                if r \<le> now
                then (False,
                      st(provider := (st provider)
                           \<lparr>rateLimit := (rateLimit (st provider))
                              \<lparr>isLimited := False, resetAt := None\<rparr>\<rparr>))
                else (True, st)
            | None \<Rightarrow> (True, st)))"

text \<open>
  The adapters' \<^verbatim>\<open>available()\<close> look at the process environment only: a variable counts
  when it is set to a non-empty string. Cheerio needs no key.
\<close>

record Env =
  EXA_API_KEY :: "string option"
  FIRECRAWL_API_KEY :: "string option"
  FC_API_KEY :: "string option"

definition truthy :: "string option \<Rightarrow> bool" where
  "truthy v = (case v of None \<Rightarrow> False | Some s \<Rightarrow> s \<noteq> [])"

fun adapterAvailable :: "Env \<Rightarrow> ScrapingProvider \<Rightarrow> bool" where
  "adapterAvailable env Exa = truthy (EXA_API_KEY env)"
| "adapterAvailable env Firecrawl = (truthy (FIRECRAWL_API_KEY env) \<or> truthy (FC_API_KEY env))"
| "adapterAvailable env Cheerio = True"

text \<open>
  \<^verbatim>\<open>getAvailableProvidersInternal\<close> filters the fixed list exa, firecrawl, cheerio with
  \<^verbatim>\<open>adapter.available() && !isRateLimited(p)\<close>; the second operand runs only when the first
  holds, and its writes are kept.
\<close>

fun filterUsable :: "Env \<Rightarrow> int \<Rightarrow> ScrapingProvider list \<Rightarrow> ProviderTable
    \<Rightarrow> ScrapingProvider list \<times> ProviderTable" where
  "filterUsable env now [] st = ([], st)"
| "filterUsable env now (p # ps) st =
     (if adapterAvailable env p
      then (case isRateLimited p now st of
              (limited, st') \<Rightarrow>
                (case filterUsable env now ps st' of
                   (rest, st'') \<Rightarrow> (if limited then rest else p # rest, st'')))
      else filterUsable env now ps st)"

definition getAvailableProvidersInternal :: "Env \<Rightarrow> int \<Rightarrow> ProviderTable
    \<Rightarrow> ScrapingProvider list \<times> ProviderTable" where
  "getAvailableProvidersInternal env now st = filterUsable env now [Exa, Firecrawl, Cheerio] st"

definition getAvailableProviders :: "Env \<Rightarrow> int \<Rightarrow> ProviderTable
    \<Rightarrow> ScrapingProvider list \<times> ProviderTable" where
  "getAvailableProviders env now st = getAvailableProvidersInternal env now st"

section \<open>Requests, results and errors\<close>

text \<open>
  \<^verbatim>\<open>CrawlOptions\<close> extends \<^verbatim>\<open>ScrapeOptions\<close>; an absent key is \<open>None\<close>. A JavaScript string
  is a list of code units, and \<^verbatim>\<open>.length\<close> is the length of that list. The numeric
  options are declared \<^verbatim>\<open>number\<close> and nothing in the two modules checks them, so they are
  rationals here: every finite value a caller can pass, fractions and negative values
  included. \<^verbatim>\<open>NaN\<close> and the two infinities are not represented. Timestamps, depths and
  status codes, which the code computes itself, are integers.
\<close>

record Options =
  optProvider :: "ScrapingProvider option"
  fallback :: "bool option"
  optMarkdown :: "bool option"
  optHtml :: "bool option"
  maxChars :: "rat option"
  livecrawl :: "string option"
  maxAge :: "rat option"
  maxSubpages :: "rat option"
  maxDepth :: "rat option"
  subpageTarget :: "string list option"
  concurrency :: "rat option"
  sameDomainOnly :: "bool option"

definition noOptions :: Options where
  "noOptions =
     \<lparr>optProvider = None, fallback = None, optMarkdown = None, optHtml = None,
      maxChars = None, livecrawl = None, maxAge = None, maxSubpages = None,
      maxDepth = None, subpageTarget = None, concurrency = None, sameDomainOnly = None\<rparr>"

definition orDefault :: "'a option \<Rightarrow> 'a \<Rightarrow> 'a option" where
  "orDefault v d = (case v of None \<Rightarrow> Some d | Some x \<Rightarrow> Some x)"

text \<open>\<^verbatim>\<open>{ ...DEFAULT_OPTIONS, ...options }\<close> of the scraper and of the crawler.\<close>

definition scrapeDefaults :: "Options \<Rightarrow> Options" where
  "scrapeDefaults options =
     options\<lparr>fallback := orDefault (fallback options) True,
             optMarkdown := orDefault (optMarkdown options) True,
             optHtml := orDefault (optHtml options) False\<rparr>"

definition crawlDefaults :: "Options \<Rightarrow> Options" where
  "crawlDefaults options =
     options\<lparr>fallback := orDefault (fallback options) True,
             optMarkdown := orDefault (optMarkdown options) True,
             optHtml := orDefault (optHtml options) False,
             maxSubpages := orDefault (maxSubpages options) 0,
             maxDepth := orDefault (maxDepth options) 1,
             concurrency := orDefault (concurrency options) 5,
             sameDomainOnly := orDefault (sameDomainOnly options) True\<rparr>"

datatype jsval = JUndefined | JString string | JNumber int

text \<open>
  \<^verbatim>\<open>CrawlResult\<close> extends \<^verbatim>\<open>ScrapeResult\<close> by two optional fields, so one type serves both:
  a scrape result has neither \<open>subpages\<close> nor \<open>depth\<close>.
\<close>

datatype PageResult = PageResult
  (url: string)
  (text': string)
  (markdown: "string option")
  (html: "string option")
  (metadata: "(string \<times> jsval) list")
  (provider: ScrapingProvider)
  (subpages: "PageResult list option")
  (depth: "int option")

text \<open>
  A thrown value is an \<^verbatim>\<open>Error\<close> with its message; the adapters tag the ones they classify
  as capacity rejections with \<^verbatim>\<open>isRateLimit = true\<close>, and the orchestrator reads
  \<^verbatim>\<open>error?.isRateLimit || false\<close>.
\<close>

record Error =
  message :: string
  isRateLimit :: bool

definition mkError :: "string \<Rightarrow> Error" where
  "mkError msg = \<lparr>message = msg, isRateLimit = False\<rparr>"

definition providerName :: "ScrapingProvider \<Rightarrow> string" where
  "providerName p = (case p of Exa \<Rightarrow> ''exa'' | Firecrawl \<Rightarrow> ''firecrawl'' | Cheerio \<Rightarrow> ''cheerio'')"

definition noProvidersError :: Error where
  "noProvidersError = mkError
     ''No scraping providers available. Set EXA_API_KEY or FIRECRAWL_API_KEY, or use cheerio provider''"

definition noCrawlingProvidersError :: Error where
  "noCrawlingProvidersError = mkError
     ''No crawling providers available. Set EXA_API_KEY or FIRECRAWL_API_KEY, or use cheerio provider''"

definition providerNotAvailableError :: "ScrapingProvider option \<Rightarrow> Error" where
  "providerNotAvailableError p = mkError
     (''Provider '' @ [CHR 0x22]
        @ (case p of None \<Rightarrow> ''undefined'' | Some q \<Rightarrow> providerName q)
        @ [CHR 0x22] @ '' not available and fallback disabled'')"

section \<open>Selection policy\<close>

text \<open>
  The comparator of the last resort in \<^verbatim>\<open>selectProvider\<close>, and a stable sort by it (the
  engine's \<^verbatim>\<open>Array.prototype.sort\<close> is stable).
\<close>

definition compareProviders :: "ProviderTable \<Rightarrow> ScrapingProvider \<Rightarrow> ScrapingProvider \<Rightarrow> int" where
  "compareProviders st a b =
     (if lastSuccess (st a) \<noteq> None \<and> lastSuccess (st b) = None then - 1
      else if lastSuccess (st a) = None \<and> lastSuccess (st b) \<noteq> None then 1
      else if errors (rateLimit (st a)) < errors (rateLimit (st b)) then - 1
      else if errors (rateLimit (st a)) > errors (rateLimit (st b)) then 1
      else 0)"

fun insertBy :: "('a \<Rightarrow> 'a \<Rightarrow> int) \<Rightarrow> 'a \<Rightarrow> 'a list \<Rightarrow> 'a list" where
  "insertBy c x [] = [x]"
| "insertBy c x (y # ys) = (if c x y \<le> 0 then x # y # ys else y # insertBy c x ys)"

definition sortBy :: "('a \<Rightarrow> 'a \<Rightarrow> int) \<Rightarrow> 'a list \<Rightarrow> 'a list" where
  "sortBy c xs = foldr (insertBy c) xs []"

definition priorityOrder :: "ScrapingProvider list" where
  "priorityOrder = [Cheerio, Exa, Firecrawl]"

definition selectProvider :: "Env \<Rightarrow> ScrapingProvider option \<Rightarrow> bool \<Rightarrow> Options \<Rightarrow> int
    \<Rightarrow> ProviderTable \<Rightarrow> ScrapingProvider option \<times> ProviderTable" where
  "selectProvider env prefer fb options now st =
     (case getAvailableProvidersInternal env now st of
        (avail, st') \<Rightarrow>
          (if avail = [] then None
           else if optHtml options = Some True \<and> prefer = None \<and> Firecrawl \<in> set avail
             then Some Firecrawl
           else if (case prefer of Some p \<Rightarrow> p \<in> set avail | None \<Rightarrow> False) then prefer
           else if prefer \<noteq> None \<and> \<not> fb then None
           else (case List.find (\<lambda>p. p \<in> set avail) priorityOrder of
                   Some p \<Rightarrow> Some p
                 | None \<Rightarrow>
                     (case sortBy (compareProviders st') avail of
                        [] \<Rightarrow> None
                      | p # _ \<Rightarrow> Some p)),
           st'))"

section \<open>Fallback orchestrator\<close>

text \<open>
  What an adapter does with a URL is the world's answer: a result or a thrown error,
  and the time the call took. The system carries the provider table, the clock that
  \<^verbatim>\<open>new Date()\<close> reads, and the log of adapter invocations in the order they were made.
  Code between two awaits runs at one clock value; awaiting an adapter advances it.
\<close>

record World =
  env :: Env
  adapterRun :: "ScrapingProvider \<Rightarrow> string \<Rightarrow> Options \<Rightarrow> (Error + PageResult) \<times> nat"

record System =
  state :: ProviderTable
  clock :: int
  calls :: "ScrapingProvider list"

definition callAdapter :: "World \<Rightarrow> ScrapingProvider \<Rightarrow> string \<Rightarrow> Options \<Rightarrow> System
    \<Rightarrow> (Error + PageResult) \<times> System" where
  "callAdapter w p u options sys =
     (case adapterRun w p u options of
        (outcome, took) \<Rightarrow>
          (outcome, sys\<lparr>clock := clock sys + int took, calls := calls sys @ [p]\<rparr>))"

definition alternatives :: "ScrapingProvider \<Rightarrow> ScrapingProvider list" where
  "alternatives p =
     (case p of Exa \<Rightarrow> [Firecrawl, Cheerio]
              | Firecrawl \<Rightarrow> [Exa, Cheerio]
              | Cheerio \<Rightarrow> [Exa, Firecrawl])"

text \<open>The \<^verbatim>\<open>for (const alt of alternatives)\<close> loop; \<open>None\<close> when it runs off the end.\<close>

fun tryAlternatives :: "World \<Rightarrow> string \<Rightarrow> Options \<Rightarrow> ScrapingProvider list \<Rightarrow> System
    \<Rightarrow> PageResult option \<times> System" where
  "tryAlternatives w u options [] sys = (None, sys)"
| "tryAlternatives w u options (alt # rest) sys =
     (if adapterAvailable (env w) alt
      then (case isRateLimited alt (clock sys) (state sys) of
              (limited, st1) \<Rightarrow>
                if limited then tryAlternatives w u options rest (sys\<lparr>state := st1\<rparr>)
                else (case callAdapter w alt u options (sys\<lparr>state := st1\<rparr>) of
                        (Inr result, sys2) \<Rightarrow>
                          (Some result,
                           sys2\<lparr>state := recordSuccess alt (clock sys2) (state sys2)\<rparr>)
                      | (Inl fallbackError, sys2) \<Rightarrow>
                          tryAlternatives w u options rest
                            (sys2\<lparr>state :=
                               (if isRateLimit fallbackError
                                then recordRateLimit alt (clock sys2) (state sys2)
                                else recordError alt (state sys2))\<rparr>)))
      else tryAlternatives w u options rest sys)"

definition tryWithFallback :: "World \<Rightarrow> string \<Rightarrow> Options \<Rightarrow> ScrapingProvider \<Rightarrow> System
    \<Rightarrow> (Error + PageResult) \<times> System" where
  "tryWithFallback w u options p sys =
     (case callAdapter w p u options sys of
        (Inr result, sys1) \<Rightarrow>
          (Inr result, sys1\<lparr>state := recordSuccess p (clock sys1) (state sys1)\<rparr>)
      | (Inl error, sys1) \<Rightarrow>
          if isRateLimit error
          then (if fallback options \<noteq> Some False
                then (case tryAlternatives w u options (alternatives p)
                             (sys1\<lparr>state := recordRateLimit p (clock sys1) (state sys1)\<rparr>) of
                        (Some result, sys2) \<Rightarrow> (Inr result, sys2)
                      | (None, sys2) \<Rightarrow> (Inl error, sys2))
                else (Inl error, sys1\<lparr>state := recordRateLimit p (clock sys1) (state sys1)\<rparr>))
          else (Inl error, sys1\<lparr>state := recordError p (state sys1)\<rparr>))"

text \<open>
  \<^verbatim>\<open>scrape\<close> of the scraper and \<^verbatim>\<open>crawl\<close> of the crawler. The two differ in the defaults
  they merge in, in the adapter method reached through \<^verbatim>\<open>tryWithFallback\<close> (which the
  world answers) and in the wording of one message. Each module keeps a provider table of
  its own; a system is the table of the module whose function is called.
\<close>

definition scrape :: "World \<Rightarrow> string \<Rightarrow> Options \<Rightarrow> System \<Rightarrow> (Error + PageResult) \<times> System" where
  "scrape w u options sys =
     (let opts = scrapeDefaults options in
      case selectProvider (env w) (optProvider opts) (fallback opts \<noteq> Some False) opts
             (clock sys) (state sys) of
        (Some p, st1) \<Rightarrow> tryWithFallback w u opts p (sys\<lparr>state := st1\<rparr>)
      | (None, st1) \<Rightarrow>
          (let exaAvail = adapterAvailable (env w) Exa;
               fcAvail = adapterAvailable (env w) Firecrawl;
               cheerioAvail = adapterAvailable (env w) Cheerio
           in if \<not> exaAvail \<and> \<not> fcAvail \<and> \<not> cheerioAvail
              then (Inl noProvidersError, sys\<lparr>state := st1\<rparr>)
              else if fallback opts \<noteq> Some False
              then tryWithFallback w u opts
                     (case optProvider opts of
                        Some p \<Rightarrow> p
                      | None \<Rightarrow> if cheerioAvail then Cheerio else if exaAvail then Exa else Firecrawl)
                     (sys\<lparr>state := st1\<rparr>)
              else (Inl (providerNotAvailableError (optProvider opts)), sys\<lparr>state := st1\<rparr>)))"

definition crawl :: "World \<Rightarrow> string \<Rightarrow> Options \<Rightarrow> System \<Rightarrow> (Error + PageResult) \<times> System" where
  "crawl w u options sys =
     (let opts = crawlDefaults options in
      case selectProvider (env w) (optProvider opts) (fallback opts \<noteq> Some False) opts
             (clock sys) (state sys) of
        (Some p, st1) \<Rightarrow> tryWithFallback w u opts p (sys\<lparr>state := st1\<rparr>)
      | (None, st1) \<Rightarrow>
          (let exaAvail = adapterAvailable (env w) Exa;
               fcAvail = adapterAvailable (env w) Firecrawl;
               cheerioAvail = adapterAvailable (env w) Cheerio
           in if \<not> exaAvail \<and> \<not> fcAvail \<and> \<not> cheerioAvail
              then (Inl noCrawlingProvidersError, sys\<lparr>state := st1\<rparr>)
              else if fallback opts \<noteq> Some False
              then tryWithFallback w u opts
                     (case optProvider opts of
                        Some p \<Rightarrow> p
                      | None \<Rightarrow> if cheerioAvail then Cheerio else if exaAvail then Exa else Firecrawl)
                     (sys\<lparr>state := st1\<rparr>)
              else (Inl (providerNotAvailableError (optProvider opts)), sys\<lparr>state := st1\<rparr>)))"

text \<open>\<^verbatim>\<open>initProviders\<close>, run once when the module is loaded.\<close>

definition initProviders :: "Env \<Rightarrow> ProviderTable \<Rightarrow> ProviderTable" where
  "initProviders e st =
     setAvailable Cheerio (adapterAvailable e Cheerio)
       (setAvailable Firecrawl (adapterAvailable e Firecrawl)
          (setAvailable Exa (adapterAvailable e Exa) st))"

section \<open>The libraries and the network\<close>

text \<open>
  What the code asks of its libraries is taken as given: \<open>Libs\<close> holds one function for
  each use the code makes of JSDOM, Readability, cheerio, DOMPurify, Turndown and the
  WHATWG \<^verbatim>\<open>URL\<close> class, and nothing is assumed about them.
  \<^item> \<open>readability rawHtml u\<close> is \<^verbatim>\<open>new Readability(new JSDOM(html, {url}).window.document).parse()\<close>,
    \<open>None\<close> for \<^verbatim>\<open>null\<close>; \<open>documentLang\<close> is \<^verbatim>\<open>document.documentElement.lang\<close>.
  \<^item> \<open>titleText rawHtml\<close> is the text of the \<^verbatim>\<open>title\<close> element; \<open>metaContent rawHtml a v\<close> is the
    \<^verbatim>\<open>content\<close> attribute of the \<^verbatim>\<open>meta\<close> element selected by attribute \<open>a\<close> with value \<open>v\<close>;
    \<open>linkHref rawHtml v\<close> is the \<^verbatim>\<open>href\<close> of the \<^verbatim>\<open>link\<close> element with \<^verbatim>\<open>rel\<close> equal to \<open>v\<close>.
  \<^item> \<open>sanitize\<close> is \<^verbatim>\<open>DOMPurify.sanitize\<close> with the allow-lists of the source, \<open>turndown\<close> the
    markdown conversion, \<open>bodyText\<close> the \<^verbatim>\<open>textContent\<close> of the body JSDOM builds for a string.
  \<^item> \<open>anchorHrefs rawHtml\<close> lists the \<^verbatim>\<open>href\<close> values of the elements matching \<^verbatim>\<open>a[href]\<close>, in
    document order.
  \<^item> \<open>resolveUrl href base\<close> is \<^verbatim>\<open>new URL(href, base).href\<close> and \<open>urlHostname u\<close> is
    \<^verbatim>\<open>new URL(u).hostname\<close>; \<open>None\<close> where the constructor throws.
  \<^item> \<open>concurrencyMessage c\<close> is the message of the \<^verbatim>\<open>TypeError\<close> with which \<^verbatim>\<open>pMap\<close> rejects
    the concurrency \<open>c\<close>.
  \<open>Web\<close> is \<^verbatim>\<open>fetch\<close>: for each URL either the error it throws or the response.
\<close>

record Article =
  artTitle :: "string option"
  artContent :: "string option"
  artTextContent :: "string option"
  byline :: "string option"
  lang :: "string option"
  excerpt :: "string option"
  siteName :: "string option"

record Libs =
  readability :: "string \<Rightarrow> string \<Rightarrow> Article option"
  documentLang :: "string \<Rightarrow> string"
  titleText :: "string \<Rightarrow> string"
  metaContent :: "string \<Rightarrow> string \<Rightarrow> string \<Rightarrow> string option"
  linkHref :: "string \<Rightarrow> string \<Rightarrow> string option"
  sanitize :: "string \<Rightarrow> string"
  turndown :: "string \<Rightarrow> string"
  bodyText :: "string \<Rightarrow> string"
  anchorHrefs :: "string \<Rightarrow> string list"
  resolveUrl :: "string \<Rightarrow> string \<Rightarrow> string option"
  urlHostname :: "string \<Rightarrow> string option"
  concurrencyMessage :: "rat \<Rightarrow> string"

record HttpResponse =
  ok :: bool
  status :: nat
  body :: string

type_synonym Web = "string \<Rightarrow> Error + HttpResponse"

section \<open>JavaScript idioms\<close>

text \<open>
  \<open>orStr v d\<close> is \<^verbatim>\<open>v || d\<close> for a string \<open>v\<close> that may be undefined (the empty string is
  falsy), \<open>orOpt\<close> the same with a right operand that may be undefined, \<open>firstTruthy\<close> a chain
  \<^verbatim>\<open>a || b || ... || ""\<close>; \<open>numTruthy\<close> is the truth value of a number that may be undefined
  and \<open>orZero n\<close> is \<^verbatim>\<open>n || 0\<close>. \<open>toInteger\<close> is the conversion \<^verbatim>\<open>ToIntegerOrInfinity\<close> that
  \<^verbatim>\<open>substring\<close> and \<^verbatim>\<open>slice\<close> apply to their arguments: the fraction is dropped, towards
  zero. \<open>substring0 s n\<close> is \<^verbatim>\<open>s.substring(0, n)\<close> and \<open>slice0 xs n\<close>
  is \<^verbatim>\<open>xs.slice(0, n)\<close>: a negative integer is 0 for the first and counts from the end
  for the second. \<open>truncateTo\<close> is the statement
  \<^verbatim>\<open>if (options.maxChars && s.length > options.maxChars) s = s.substring(0, options.maxChars)\<close>.
  \<open>spread obj extras\<close> is \<^verbatim>\<open>{ ...obj, ...extras }\<close> on objects kept as association
  lists. \<open>testCI alts msg\<close> is \<^verbatim>\<open>/a1|a2|.../i.test(msg)\<close> for alternatives without
  metacharacters.
\<close>

definition orStr :: "string option \<Rightarrow> string \<Rightarrow> string" where
  "orStr v d = (case v of None \<Rightarrow> d | Some s \<Rightarrow> if s = [] then d else s)"

definition orOpt :: "string option \<Rightarrow> string option \<Rightarrow> string option" where
  "orOpt v w = (if truthy v then v else w)"

fun firstTruthy :: "string option list \<Rightarrow> string" where
  "firstTruthy [] = []"
| "firstTruthy (v # vs) = (if truthy v then orStr v [] else firstTruthy vs)"

definition numTruthy :: "rat option \<Rightarrow> bool" where
  "numTruthy v = (case v of None \<Rightarrow> False | Some n \<Rightarrow> n \<noteq> 0)"

definition orZero :: "rat option \<Rightarrow> rat" where
  "orZero v = (case v of None \<Rightarrow> 0 | Some n \<Rightarrow> n)"

definition toInteger :: "rat \<Rightarrow> int" where
  "toInteger x = (if 0 \<le> x then \<lfloor>x\<rfloor> else \<lceil>x\<rceil>)"

definition substring0 :: "string \<Rightarrow> rat \<Rightarrow> string" where
  "substring0 s n = take (nat (toInteger n)) s"

definition slice0 :: "'a list \<Rightarrow> rat \<Rightarrow> 'a list" where
  "slice0 xs n =
     (if toInteger n < 0 then take (length xs - nat (- toInteger n)) xs
      else take (nat (toInteger n)) xs)"

definition truncateTo :: "rat option \<Rightarrow> string \<Rightarrow> string" where
  "truncateTo mc s =
     (case mc of
        None \<Rightarrow> s
      | Some n \<Rightarrow> if n \<noteq> 0 \<and> n < of_nat (length s) then substring0 s n else s)"

definition jsOf :: "string option \<Rightarrow> jsval" where
  "jsOf v = (case v of None \<Rightarrow> JUndefined | Some s \<Rightarrow> JString s)"

definition spread :: "(string \<times> jsval) list \<Rightarrow> (string \<times> jsval) list \<Rightarrow> (string \<times> jsval) list" where
  "spread obj extras = foldl (\<lambda>m kv. AList.update (fst kv) (snd kv) m) obj extras"

definition toLower :: "char \<Rightarrow> char" where
  "toLower c = (if 65 \<le> (of_char c :: nat) \<and> (of_char c :: nat) \<le> 90
                then char_of ((of_char c :: nat) + 32) else c)"

definition testCI :: "string list \<Rightarrow> string \<Rightarrow> bool" where
  "testCI alts msg = (\<exists>a \<in> set alts. sublist (map toLower a) (map toLower msg))"

fun digit :: "nat \<Rightarrow> char" where
  "digit n = char_of (48 + n)"

fun showNat :: "nat \<Rightarrow> string" where
  "showNat n = (if n < 10 then [digit n] else showNat (n div 10) @ [digit (n mod 10)])"

declare showNat.simps [simp del]


section \<open>Results\<close>

definition withDepth :: "int option \<Rightarrow> PageResult \<Rightarrow> PageResult" where
  "withDepth d r =
     PageResult (url r) (text' r) (markdown r) (html r) (metadata r) (provider r) (subpages r) d"

definition withSubpages :: "PageResult list option \<Rightarrow> PageResult \<Rightarrow> PageResult" where
  "withSubpages sp r =
     PageResult (url r) (text' r) (markdown r) (html r) (metadata r) (provider r) sp (depth r)"


section \<open>Content normalizers\<close>

text \<open>
  \<^verbatim>\<open>normalizeCheerioResult\<close> of the scraper; \<open>cheerioMetadata\<close> is the metadata object it
  builds from the constants it computes first. The crawler's
  \<^verbatim>\<open>normalizeCheerioResultToCrawl\<close> repeats its text and adds the field \<open>depth\<close>.
\<close>

definition cheerioMetadata :: "Libs \<Rightarrow> string \<Rightarrow> Article \<Rightarrow> string \<Rightarrow> (string \<times> jsval) list" where
  "cheerioMetadata L rawHtml article u =
     (let title = firstTruthy [artTitle article, Some (titleText L rawHtml),
                               metaContent L rawHtml ''property'' ''og:title''];
          description = firstTruthy [metaContent L rawHtml ''name'' ''description'',
                                     metaContent L rawHtml ''property'' ''og:description''];
          author = firstTruthy [metaContent L rawHtml ''name'' ''author'',
                                metaContent L rawHtml ''property'' ''article:author'',
                                byline article];
          publishedDate = firstTruthy [metaContent L rawHtml ''property'' ''article:published_time'',
                                       metaContent L rawHtml ''name'' ''date''];
          image = firstTruthy [metaContent L rawHtml ''property'' ''og:image'',
                               metaContent L rawHtml ''name'' ''twitter:image''];
          favicon = firstTruthy [linkHref L rawHtml ''icon'', linkHref L rawHtml ''shortcut icon'']
      in [(''title'', JString title), (''description'', JString description),
          (''author'', JString author), (''publishedDate'', JString publishedDate),
          (''image'', JString image), (''favicon'', JString favicon),
          (''language'', JString (firstTruthy [lang article, Some (documentLang L rawHtml)])),
          (''excerpt'', jsOf (excerpt article)), (''siteName'', jsOf (siteName article)),
          (''sourceURL'', JString u)])"

definition normalizeCheerioResult :: "Libs \<Rightarrow> string \<Rightarrow> string \<Rightarrow> Options \<Rightarrow> Error + PageResult" where
  "normalizeCheerioResult L rawHtml u options =
     (case readability L rawHtml u of
        None \<Rightarrow> Inl (mkError (''Failed to parse readable content from: '' @ u))
      | Some article \<Rightarrow>
          (let htmlContent = sanitize L (orStr (artContent article) rawHtml);
               md = (if optMarkdown options \<noteq> Some False then Some (turndown L htmlContent) else None);
               txt = truncateTo (maxChars options) (orStr (artTextContent article) [])
           in Inr (PageResult u txt
                     (if truthy md then map_option (truncateTo (maxChars options)) md else md)
                     (if optHtml options = Some True then Some htmlContent else None)
                     (cheerioMetadata L rawHtml article u)
                     Cheerio None None)))"

definition normalizeCheerioResultToCrawl :: "Libs \<Rightarrow> string \<Rightarrow> string \<Rightarrow> Options \<Rightarrow> int
    \<Rightarrow> Error + PageResult" where
  "normalizeCheerioResultToCrawl L rawHtml u options d =
     (case normalizeCheerioResult L rawHtml u options of
        Inl e \<Rightarrow> Inl e
      | Inr r \<Rightarrow> Inr (withDepth (Some d) r))"

section \<open>Link extractor\<close>

text \<open>
  \<open>collectLinks\<close> is the \<^verbatim>\<open>.each\<close> loop that pushes to \<^verbatim>\<open>links\<close>; a \<^verbatim>\<open>URL\<close> constructor
  that throws lands in the \<^verbatim>\<open>catch\<close> and the anchor is skipped. \<open>uniq\<close> is
  \<^verbatim>\<open>Array.from(new Set(links))\<close>: a \<^verbatim>\<open>Set\<close> keeps its elements in the order in which they
  were first added. The host of the base URL is computed outside the \<^verbatim>\<open>try\<close>, so a base
  URL that does not parse makes \<^verbatim>\<open>extractLinks\<close> throw.
\<close>

fun collectLinks :: "Libs \<Rightarrow> string \<Rightarrow> string \<Rightarrow> bool \<Rightarrow> string list \<Rightarrow> string list" where
  "collectLinks L baseUrl baseDomain same [] = []"
| "collectLinks L baseUrl baseDomain same (href # rest) =
     (if href = [] \<or> prefix ''#'' href \<or> prefix ''mailto:'' href
      then collectLinks L baseUrl baseDomain same rest
      else (case resolveUrl L href baseUrl of
              None \<Rightarrow> collectLinks L baseUrl baseDomain same rest
            | Some absoluteUrl \<Rightarrow>
                (case urlHostname L absoluteUrl of
                   None \<Rightarrow> collectLinks L baseUrl baseDomain same rest
                 | Some urlDomain \<Rightarrow>
                     if same \<and> urlDomain \<noteq> baseDomain
                     then collectLinks L baseUrl baseDomain same rest
                     else if prefix ''http://'' absoluteUrl \<or> prefix ''https://'' absoluteUrl
                     then absoluteUrl # collectLinks L baseUrl baseDomain same rest
                     else collectLinks L baseUrl baseDomain same rest)))"

fun addAll :: "'a list \<Rightarrow> 'a list \<Rightarrow> 'a list" where
  "addAll seen [] = seen"
| "addAll seen (x # xs) = addAll (if x \<in> set seen then seen else seen @ [x]) xs"

definition uniq :: "'a list \<Rightarrow> 'a list" where
  "uniq xs = addAll [] xs"

definition extractLinks :: "Libs \<Rightarrow> string \<Rightarrow> string \<Rightarrow> bool \<Rightarrow> Error + string list" where
  "extractLinks L rawHtml baseUrl same =
     (case urlHostname L baseUrl of
        None \<Rightarrow> Inl (mkError ''Invalid URL'')
      | Some baseDomain \<Rightarrow>
          Inr (uniq (collectLinks L baseUrl baseDomain same (anchorHrefs L rawHtml))))"

text \<open>
  \<open>followed\<close> collects the conditions under which the loop pushes \<open>l\<close> for the anchor
  target \<open>href\<close>; it is used to state what the extractor returns.
\<close>

definition followed :: "Libs \<Rightarrow> string \<Rightarrow> string \<Rightarrow> bool \<Rightarrow> string \<Rightarrow> string \<Rightarrow> bool" where
  "followed L baseUrl host same href l =
     (href \<noteq> [] \<and> \<not> prefix ''#'' href \<and> \<not> prefix ''mailto:'' href
      \<and> resolveUrl L href baseUrl = Some l
      \<and> (\<exists>d. urlHostname L l = Some d \<and> (same \<longrightarrow> d = host))
      \<and> (prefix ''http://'' l \<or> prefix ''https://'' l))"

section \<open>Crawl engine\<close>

text \<open>
  \<^verbatim>\<open>cheerioAdapter.crawl\<close>. Every call of \<^verbatim>\<open>crawlRecursive\<close> is an asynchronous task, and all
  tasks of one crawl share the set \<^verbatim>\<open>visitedUrls\<close>. A call runs without interruption from
  its start to the \<^verbatim>\<open>await\<close> of \<^verbatim>\<open>fetch\<close> (\<open>crawlRecursiveEnter\<close>: the test on the set and on
  the depth, the entry into the set, the check of the URL) and, once the response is there,
  from the test of \<^verbatim>\<open>response.ok\<close> to the call of \<^verbatim>\<open>pMap\<close> (\<open>crawlRecursiveResume\<close>, which reads
  the set as it is at that moment). While it waits, the other tasks run. The response
  and its body are awaited one after the other; all the call does in between is the test
  of \<^verbatim>\<open>response.ok\<close>, so the two count as one arrival.

  \<^verbatim>\<open>pMap\<close> is the library \<^verbatim>\<open>p-map\<close>. It throws a \<^verbatim>\<open>TypeError\<close> for a concurrency that is not an
  integer from 1 up (\<open>validConcurrency\<close>, with the bound of \<^verbatim>\<open>Number.isSafeInteger\<close>).
  Otherwise it calls the mapper on the items in order, keeps at most that many mappers
  unresolved, calls the mapper on the next item as soon as one has resolved, and resolves
  with the results in item order when all have. The mapper of \<^verbatim>\<open>crawlRecursive\<close> resolves
  with the page of the child, or with \<^verbatim>\<open>null\<close> when the child throws.

  A \<open>Task\<close> is the state of one call: \<open>Pending\<close> for an item whose mapper \<^verbatim>\<open>pMap\<close> has not
  called yet, \<open>Fetching\<close> while the response is awaited, \<open>Mapping result d ts\<close> while
  \<^verbatim>\<open>pMap\<close> runs over the children \<open>ts\<close>, \<open>Finished\<close> with the page returned or the error
  thrown. \<open>pMapStart\<close> calls the mapper for pending items as long as a slot is free (a
  child that throws before its fetch frees its slot at once). \<open>settle\<close> is what runs after
  a response has been handled and before the next one arrives: from the leaves up, \<^verbatim>\<open>pMap\<close>
  fills the slots that finished children have left, and a call whose children have all
  finished assigns \<^verbatim>\<open>subpageResults.filter(r => r !== null)\<close> to \<open>subpages\<close> and returns.
  \<open>complete u\<close> hands the response for \<open>u\<close> to the task that awaits it.

  The code does not fix the order in which the responses of concurrent fetches arrive.
  \<open>crawlRuns\<close> follows one response per step, any of those awaited, and holds of every
  result the crawl can end with. What \<^verbatim>\<open>fetch\<close> answers for a URL does not depend on the
  moment it is asked.
\<close>

definition maxDepthOf :: "Options \<Rightarrow> rat" where
  "maxDepthOf options = (case maxDepth options of None \<Rightarrow> 1 | Some d \<Rightarrow> d)"

definition maxSubpagesOf :: "Options \<Rightarrow> rat" where
  "maxSubpagesOf options = orZero (maxSubpages options)"

definition concurrencyOf :: "Options \<Rightarrow> rat" where
  "concurrencyOf options = (if numTruthy (concurrency options) then orZero (concurrency options) else 5)"

definition validConcurrency :: "rat \<Rightarrow> bool" where
  "validConcurrency c = (of_int \<lfloor>c\<rfloor> = c \<and> 1 \<le> c \<and> c \<le> 9007199254740991)"

datatype Task =
    Pending string
  | Fetching string int
  | Mapping PageResult int "Task list"
  | Finished "Error + PageResult"

fun isFinished :: "Task \<Rightarrow> bool" where
  "isFinished (Finished r) = True"
| "isFinished t = False"

fun unresolved :: "Task \<Rightarrow> bool" where
  "unresolved (Fetching u d) = True"
| "unresolved (Mapping result d ts) = True"
| "unresolved t = False"

fun mapped :: "Task \<Rightarrow> PageResult option" where
  "mapped (Finished (Inr page)) = Some page"
| "mapped t = None"

definition crawlRecursiveEnter :: "Libs \<Rightarrow> Options \<Rightarrow> string set \<Rightarrow> string \<Rightarrow> int
    \<Rightarrow> Task \<times> string set" where
  "crawlRecursiveEnter L options visitedUrls currentUrl d =
     (if currentUrl \<in> visitedUrls \<or> maxDepthOf options < of_int d
      then (Finished (Inl (mkError (''URL already visited or max depth reached: '' @ currentUrl))),
            visitedUrls)
      else if urlHostname L currentUrl = None
      then (Finished (Inl (mkError (''Invalid URL: '' @ currentUrl))), insert currentUrl visitedUrls)
      else (Fetching currentUrl d, insert currentUrl visitedUrls))"

definition crawlRecursiveResume :: "Libs \<Rightarrow> Web \<Rightarrow> Options \<Rightarrow> string set \<Rightarrow> string \<Rightarrow> int \<Rightarrow> Task" where
  "crawlRecursiveResume L W options visitedUrls currentUrl d =
     (case W currentUrl of
        Inl e \<Rightarrow> Finished (Inl e)
      | Inr response \<Rightarrow>
          if \<not> ok response
          then Finished (Inl (mkError (''HTTP error! status: '' @ showNat (status response)
                                        @ '' for '' @ currentUrl)))
          else (case normalizeCheerioResultToCrawl L (body response) currentUrl options d of
                  Inl e \<Rightarrow> Finished (Inl e)
                | Inr result \<Rightarrow>
                    if of_int d < maxDepthOf options \<and> 0 < maxSubpagesOf options
                    then (case extractLinks L (body response) currentUrl
                                 (sameDomainOnly options \<noteq> Some False) of
                            Inl e \<Rightarrow> Finished (Inl e)
                          | Inr links \<Rightarrow>
                              if slice0 (filter (\<lambda>link. link \<notin> visitedUrls) links)
                                   (maxSubpagesOf options) \<noteq> []
                              then (if validConcurrency (concurrencyOf options)
                                    then Mapping result d
                                           (map Pending
                                              (slice0 (filter (\<lambda>link. link \<notin> visitedUrls) links)
                                                 (maxSubpagesOf options)))
                                    else Finished (Inl (mkError (concurrencyMessage L
                                                                   (concurrencyOf options)))))
                              else Finished (Inr result))
                    else Finished (Inr result)))"

fun pMapStart :: "Libs \<Rightarrow> Options \<Rightarrow> int \<Rightarrow> nat \<Rightarrow> string set \<Rightarrow> Task list
    \<Rightarrow> Task list \<times> string set" where
  "pMapStart L options d free visitedUrls [] = ([], visitedUrls)"
| "pMapStart L options d free visitedUrls (Pending link # ts) =
     (if free = 0 then (Pending link # ts, visitedUrls)
      else (case crawlRecursiveEnter L options visitedUrls link d of
              (t, visited1) \<Rightarrow>
                (case pMapStart L options d (if isFinished t then free else free - 1) visited1 ts of
                   (ts', visited2) \<Rightarrow> (t # ts', visited2))))"
| "pMapStart L options d free visitedUrls (Fetching u k # ts) =
     (case pMapStart L options d free visitedUrls ts of
        (ts', visited') \<Rightarrow> (Fetching u k # ts', visited'))"
| "pMapStart L options d free visitedUrls (Mapping result k cs # ts) =
     (case pMapStart L options d free visitedUrls ts of
        (ts', visited') \<Rightarrow> (Mapping result k cs # ts', visited'))"
| "pMapStart L options d free visitedUrls (Finished r # ts) =
     (case pMapStart L options d free visitedUrls ts of
        (ts', visited') \<Rightarrow> (Finished r # ts', visited'))"

definition freeSlots :: "Options \<Rightarrow> Task list \<Rightarrow> nat" where
  "freeSlots options ts = nat (toInteger (concurrencyOf options)) - length (filter unresolved ts)"

function settle :: "Libs \<Rightarrow> Options \<Rightarrow> string set \<Rightarrow> Task \<Rightarrow> Task \<times> string set"
  and settleAll :: "Libs \<Rightarrow> Options \<Rightarrow> string set \<Rightarrow> Task list \<Rightarrow> Task list \<times> string set"
where
  "settle L options visitedUrls (Mapping result d ts) =
     (case settleAll L options visitedUrls ts of
        (ts1, visited1) \<Rightarrow>
          (case pMapStart L options (d + 1) (freeSlots options ts1) visited1 ts1 of
             (ts2, visited2) \<Rightarrow>
               if list_all isFinished ts2
               then (Finished (Inr (withSubpages (Some (List.map_filter mapped ts2)) result)),
                     visited2)
               else (Mapping result d ts2, visited2)))"
| "settle L options visitedUrls (Pending link) = (Pending link, visitedUrls)"
| "settle L options visitedUrls (Fetching u d) = (Fetching u d, visitedUrls)"
| "settle L options visitedUrls (Finished r) = (Finished r, visitedUrls)"
| "settleAll L options visitedUrls [] = ([], visitedUrls)"
| "settleAll L options visitedUrls (t # ts) =
     (case settle L options visitedUrls t of
        (t', visited1) \<Rightarrow>
          (case settleAll L options visited1 ts of
             (ts', visited2) \<Rightarrow> (t' # ts', visited2)))"
  by pat_completeness auto
termination
  by (relation "measure (\<lambda>x. case x of Inl (L, options, v, t) \<Rightarrow> size t
                                     | Inr (L, options, v, ts) \<Rightarrow> size_list size ts)")
     simp_all

fun complete :: "Libs \<Rightarrow> Web \<Rightarrow> Options \<Rightarrow> string set \<Rightarrow> string \<Rightarrow> Task \<Rightarrow> Task" where
  "complete L W options visitedUrls u (Fetching currentUrl d) =
     (if currentUrl = u then crawlRecursiveResume L W options visitedUrls currentUrl d
      else Fetching currentUrl d)"
| "complete L W options visitedUrls u (Mapping result d ts) =
     Mapping result d (map (complete L W options visitedUrls u) ts)"
| "complete L W options visitedUrls u (Pending link) = Pending link"
| "complete L W options visitedUrls u (Finished r) = Finished r"

fun awaited :: "Task \<Rightarrow> string list" where
  "awaited (Fetching u d) = [u]"
| "awaited (Mapping result d ts) = concat (map awaited ts)"
| "awaited (Pending link) = []"
| "awaited (Finished r) = []"

inductive crawlRuns :: "Libs \<Rightarrow> Web \<Rightarrow> Options \<Rightarrow> string set \<Rightarrow> Task \<Rightarrow> Error + PageResult \<Rightarrow> bool"
  for L :: Libs and W :: Web and options :: Options
where
  returned: "crawlRuns L W options visitedUrls (Finished r) r"
| arrived:
    "u \<in> set (awaited t) \<Longrightarrow>
     settle L options visitedUrls (complete L W options visitedUrls u t) = (t', visited') \<Longrightarrow>
     crawlRuns L W options visited' t' r \<Longrightarrow>
     crawlRuns L W options visitedUrls t r"

code_pred crawlRuns .

text \<open>
  \<open>cheerioCrawl L W u options r\<close>: the crawl of \<open>u\<close> can end with \<open>r\<close>, a page or the
  error thrown.
\<close>

definition cheerioCrawl :: "Libs \<Rightarrow> Web \<Rightarrow> string \<Rightarrow> Options \<Rightarrow> Error + PageResult \<Rightarrow> bool" where
  "cheerioCrawl L W u options r =
     (case crawlRecursiveEnter L options {} u 0 of
        (t, visitedUrls) \<Rightarrow> crawlRuns L W options visitedUrls t r)"

section \<open>Exa\<close>

text \<open>
  An \<^verbatim>\<open>ExaResult\<close> as the crawler declares it; keys beyond the named ones are in
  \<open>exaExtra\<close>. The answer of \<^verbatim>\<open>client.getContents\<close> is a parameter of the adapters: the
  error it throws, or its \<^verbatim>\<open>results\<close> (an absent list is the empty one). An error thrown
  inside the \<^verbatim>\<open>try\<close>, the adapter's own "No results" included, goes through the
  rate-limit test on its message.
\<close>

datatype ExaResult = ExaResult
  (exaUrl: "string option")
  (exaText: "string option")
  (exaHtml: "string option")
  (exaTitle: "string option")
  (exaSummary: "string option")
  (exaAuthor: "string option")
  (exaPublishedDate: "string option")
  (exaImage: "string option")
  (exaFavicon: "string option")
  (exaSubpages: "ExaResult list option")
  (exaExtra: "(string \<times> jsval) list")

definition isExaRateLimitError :: "Error \<Rightarrow> bool" where
  "isExaRateLimitError error = testCI [''rate limit'', ''429'', ''quota'', ''limit''] (message error)"

definition exaRateLimit :: "Error \<Rightarrow> Error" where
  "exaRateLimit error = \<lparr>message = ''Exa rate limit: '' @ message error, isRateLimit = True\<rparr>"

definition exaMetadata :: "string list \<Rightarrow> ExaResult \<Rightarrow> string \<Rightarrow> (string \<times> jsval) list" where
  "exaMetadata named r u =
     spread
       [(''title'', jsOf (exaTitle r)), (''description'', jsOf (exaSummary r)),
        (''author'', jsOf (exaAuthor r)), (''publishedDate'', jsOf (exaPublishedDate r)),
        (''image'', jsOf (exaImage r)), (''favicon'', jsOf (exaFavicon r)),
        (''sourceURL'', JString (orStr (exaUrl r) u))]
       (filter (\<lambda>kv. fst kv \<notin> set named) (exaExtra r))"

definition normalizeExaResult :: "ExaResult \<Rightarrow> string \<Rightarrow> Options \<Rightarrow> PageResult" where
  "normalizeExaResult r u options =
     PageResult (orStr (exaUrl r) u)
       (orStr (exaText r) [])
       (exaText r)
       (orOpt (exaHtml r) (if optHtml options = Some True then exaText r else None))
       (exaMetadata [''url'', ''text'', ''html'', ''title'', ''summary'', ''author'',
                     ''publishedDate'', ''image'', ''favicon''] r u)
       Exa None None"

definition exaScrape :: "Env \<Rightarrow> (Error + ExaResult list) \<Rightarrow> string \<Rightarrow> Options \<Rightarrow> Error + PageResult" where
  "exaScrape e response u options =
     (if \<not> truthy (EXA_API_KEY e) then Inl (mkError ''Exa not available: EXA_API_KEY not set'')
      else (case (case response of
                    Inl error \<Rightarrow> Inl error
                  | Inr [] \<Rightarrow> Inl (mkError (''No results from Exa for: '' @ u))
                  | Inr (r # rs) \<Rightarrow> Inr (normalizeExaResult r u options)) of
              Inl error \<Rightarrow> if isExaRateLimitError error then Inl (exaRateLimit error) else Inl error
            | Inr result \<Rightarrow> Inr result))"

lemma slice0_set: "x \<in> set (slice0 xs n) \<Longrightarrow> x \<in> set xs"
  by (auto simp add: slice0_def dest: in_set_takeD split: if_splits)

lemma exa_subpage_smaller:
  assumes "exaSubpages r = Some sps" and "x \<in> set (slice0 sps n)"
  shows "size x < size r"
proof -
  have "x \<in> set sps" using assms(2) by (rule slice0_set)
  then have "size x \<le> size_list size sps" by (rule size_list_estimation') simp
  then show ?thesis using assms(1) by (cases r) simp
qed

function normalizeExaResultToCrawl :: "Libs \<Rightarrow> ExaResult \<Rightarrow> string \<Rightarrow> Options \<Rightarrow> int \<Rightarrow> PageResult" where
  "normalizeExaResultToCrawl L r u options d =
     (let exaText' = orStr (exaText r) [];
          exaHtml' = orStr (exaHtml r) [];
          isHtml = (CHR ''<'' \<in> set exaText' \<and> CHR ''>'' \<in> set exaText');
          htmlContent = (if exaHtml' \<noteq> [] then exaHtml' else if isHtml then exaText' else []);
          txt = (if isHtml then bodyText L exaText' else exaText');
          md = (if optMarkdown options \<noteq> Some False
                then (let m = (if \<not> isHtml \<and> exaText' \<noteq> [] then Some exaText'
                               else if htmlContent \<noteq> [] then Some (turndown L (sanitize L htmlContent))
                               else None)
                      in if truthy m then map_option (truncateTo (maxChars options)) m else m)
                else None);
          subs = (case exaSubpages r of
                    None \<Rightarrow> []
                  | Some sps \<Rightarrow>
                      if sps \<noteq> []
                      then map (\<lambda>subpage. normalizeExaResultToCrawl L subpage (orStr (exaUrl subpage) u)
                                             options (d + 1))
                             (slice0 sps (orZero (maxSubpages options)))
                      else [])
      in PageResult (orStr (exaUrl r) u)
           (truncateTo (maxChars options) txt)
           md
           (if optHtml options = Some True then Some htmlContent else None)
           (exaMetadata [''url'', ''text'', ''html'', ''title'', ''summary'', ''author'',
                         ''publishedDate'', ''image'', ''favicon'', ''subpages''] r u)
           Exa
           (if subs \<noteq> [] then Some subs else None)
           (Some d))"
  by pat_completeness auto
termination
  by (relation "measure (\<lambda>(L, r, u, options, d). size r)")
     (simp_all add: exa_subpage_smaller)

declare normalizeExaResultToCrawl.simps [simp del]

definition exaCrawl :: "Libs \<Rightarrow> Env \<Rightarrow> (Error + ExaResult list) \<Rightarrow> string \<Rightarrow> Options \<Rightarrow> Error + PageResult" where
  "exaCrawl L e response u options =
     (if \<not> truthy (EXA_API_KEY e) then Inl (mkError ''Exa not available: EXA_API_KEY not set'')
      else (case (case response of
                    Inl error \<Rightarrow> Inl error
                  | Inr [] \<Rightarrow> Inl (mkError (''No results from Exa for: '' @ u))
                  | Inr (r # rs) \<Rightarrow> Inr (normalizeExaResultToCrawl L r u options 0)) of
              Inl error \<Rightarrow> if isExaRateLimitError error then Inl (exaRateLimit error) else Inl error
            | Inr result \<Rightarrow> Inr result))"

section \<open>Cheerio batch crawl\<close>

text \<open>
  \<^verbatim>\<open>cheerioAdapter.crawlBatch\<close>: a \<^verbatim>\<open>pMap\<close> over the URLs, with the same check of the
  concurrency. Every URL is crawled with a visited set of its own, so the crawls of a
  batch do not affect one another; \<open>rs\<close> holds the outcome of each. \<open>statusOf\<close> is the
  entry pushed to \<open>statuses\<close> for one outcome.
\<close>

record Status =
  statusId :: string
  statusOk :: bool
  statusError :: "(string \<times> int option) option"

record BatchResult =
  results :: "PageResult list"
  statuses :: "Status list"

definition httpStatusCodeOf :: "string \<Rightarrow> int option" where
  "httpStatusCodeOf msg =
     (if sublist ''404'' msg then Some 404 else if sublist ''403'' msg then Some 403 else None)"

definition pageOf :: "Error + PageResult \<Rightarrow> PageResult option" where
  "pageOf r = (case r of Inl error \<Rightarrow> None | Inr result \<Rightarrow> Some result)"

definition statusOf :: "string \<Rightarrow> Error + PageResult \<Rightarrow> Status" where
  "statusOf u r =
     (case r of
        Inr result \<Rightarrow> \<lparr>statusId = u, statusOk = True, statusError = None\<rparr>
      | Inl error \<Rightarrow>
          \<lparr>statusId = u, statusOk = False,
           statusError = Some (''CRAWL_ERROR'', httpStatusCodeOf (message error))\<rparr>)"

inductive cheerioCrawlBatch :: "Libs \<Rightarrow> Web \<Rightarrow> string list \<Rightarrow> Options \<Rightarrow> Error + BatchResult \<Rightarrow> bool"
  for L :: Libs and W :: Web and urls :: "string list" and options :: Options
where
  rejected:
    "\<not> validConcurrency (concurrencyOf options) \<Longrightarrow>
     cheerioCrawlBatch L W urls options
       (Inl (mkError (concurrencyMessage L (concurrencyOf options))))"
| mapped:
    "validConcurrency (concurrencyOf options) \<Longrightarrow>
     list_all2 (\<lambda>u r. cheerioCrawl L W u options r) urls rs \<Longrightarrow>
     cheerioCrawlBatch L W urls options
       (Inr \<lparr>results = List.map_filter pageOf rs,
             statuses = map (\<lambda>item. statusOf (fst item) (snd item)) (zip urls rs)\<rparr>)"

code_pred cheerioCrawlBatch .

section \<open>Firecrawl\<close>

text \<open>
  The answer of \<^verbatim>\<open>client.scrape\<close> is a parameter of the adapters. \<open>ownEntries\<close> lists the
  keys a metadata object has, for the spread at the end of the result's metadata.
  \<^verbatim>\<open>firecrawlAdapter.crawl\<close> hands the first links of the answer to
  \<^verbatim>\<open>cheerioAdapter.crawlBatch\<close> and raises the depth of what comes back by one; what the
  batch throws is caught with everything else. The test \<^verbatim>\<open>if (!data)\<close> of both adapters is
  made on an object and never throws. \<open>firecrawlCatch\<close> is the \<^verbatim>\<open>catch\<close> block.
\<close>

record FirecrawlMetadata =
  fmSourceURL :: "string option"
  fmTitle :: "string option"
  fmDescription :: "string option"
  fmLanguage :: "string option"
  fmKeywords :: "string option"
  fmOgImage :: "string option"
  fmStatusCode :: "int option"
  fmExtra :: "(string \<times> jsval) list"

record FirecrawlResult =
  fcMarkdown :: "string option"
  fcHtml :: "string option"
  fcMetadata :: "FirecrawlMetadata option"
  fcLinks :: "string list option"

record FirecrawlResponse =
  frData :: "FirecrawlResult option"
  frMarkdown :: "string option"
  frHtml :: "string option"
  frMetadata :: "FirecrawlMetadata option"
  frLinks :: "string list option"

definition isFirecrawlRateLimitError :: "Error \<Rightarrow> bool" where
  "isFirecrawlRateLimitError error =
     testCI [''rate limit'', ''429'', ''quota'', ''limit'', ''RateLimitError''] (message error)"

definition firecrawlRateLimit :: "Error \<Rightarrow> Error" where
  "firecrawlRateLimit error =
     \<lparr>message = ''Firecrawl rate limit: '' @ message error, isRateLimit = True\<rparr>"

definition entry :: "string \<Rightarrow> jsval option \<Rightarrow> (string \<times> jsval) list" where
  "entry k v = (case v of None \<Rightarrow> [] | Some x \<Rightarrow> [(k, x)])"

definition ownEntries :: "FirecrawlMetadata \<Rightarrow> (string \<times> jsval) list" where
  "ownEntries m =
     entry ''sourceURL'' (map_option JString (fmSourceURL m))
     @ entry ''title'' (map_option JString (fmTitle m))
     @ entry ''description'' (map_option JString (fmDescription m))
     @ entry ''language'' (map_option JString (fmLanguage m))
     @ entry ''keywords'' (map_option JString (fmKeywords m))
     @ entry ''ogImage'' (map_option JString (fmOgImage m))
     @ entry ''statusCode'' (map_option JNumber (fmStatusCode m))
     @ fmExtra m"

definition metaField :: "FirecrawlResult \<Rightarrow> (FirecrawlMetadata \<Rightarrow> 'a option) \<Rightarrow> 'a option" where
  "metaField d f = (case fcMetadata d of None \<Rightarrow> None | Some m \<Rightarrow> f m)"

definition normalizeFirecrawlResult :: "FirecrawlResult \<Rightarrow> string \<Rightarrow> PageResult" where
  "normalizeFirecrawlResult d u =
     PageResult (orStr (metaField d fmSourceURL) u)
       (firstTruthy [fcMarkdown d, fcHtml d])
       (fcMarkdown d)
       (fcHtml d)
       (spread
          [(''title'', jsOf (metaField d fmTitle)),
           (''description'', jsOf (metaField d fmDescription)),
           (''language'', jsOf (metaField d fmLanguage)),
           (''keywords'', jsOf (metaField d fmKeywords)),
           (''image'', jsOf (metaField d fmOgImage)),
           (''statusCode'', (case metaField d fmStatusCode of None \<Rightarrow> JUndefined | Some n \<Rightarrow> JNumber n)),
           (''sourceURL'', JString (orStr (metaField d fmSourceURL) u))]
          (case fcMetadata d of None \<Rightarrow> [] | Some m \<Rightarrow> ownEntries m))
       Firecrawl None None"

definition normalizeFirecrawlResultToCrawl :: "FirecrawlResult \<Rightarrow> string \<Rightarrow> int \<Rightarrow> PageResult" where
  "normalizeFirecrawlResultToCrawl d u dep = withDepth (Some dep) (normalizeFirecrawlResult d u)"

definition firecrawlData :: "FirecrawlResponse \<Rightarrow> FirecrawlResult" where
  "firecrawlData response =
     (case frData response of
        Some d \<Rightarrow> d
      | None \<Rightarrow> \<lparr>fcMarkdown = frMarkdown response, fcHtml = frHtml response,
                 fcMetadata = frMetadata response, fcLinks = frLinks response\<rparr>)"

definition firecrawlAvailable :: "Env \<Rightarrow> bool" where
  "firecrawlAvailable e = (truthy (FIRECRAWL_API_KEY e) \<or> truthy (FC_API_KEY e))"

definition firecrawlScrape :: "Env \<Rightarrow> (Error + FirecrawlResponse) \<Rightarrow> string \<Rightarrow> Options
    \<Rightarrow> Error + PageResult" where
  "firecrawlScrape e response u options =
     (if \<not> firecrawlAvailable e
      then Inl (mkError ''Firecrawl not available: FIRECRAWL_API_KEY not set'')
      else (case response of
              Inl error \<Rightarrow>
                if isFirecrawlRateLimitError error then Inl (firecrawlRateLimit error) else Inl error
            | Inr resp \<Rightarrow> Inr (normalizeFirecrawlResult (firecrawlData resp) u)))"

definition orOne :: "rat option \<Rightarrow> rat" where
  "orOne v = (if numTruthy v then orZero v else 1)"

definition firecrawlCatch :: "Error \<Rightarrow> Error + PageResult" where
  "firecrawlCatch error =
     (if isFirecrawlRateLimitError error then Inl (firecrawlRateLimit error) else Inl error)"

definition wantsSubpages :: "Options \<Rightarrow> FirecrawlResult \<Rightarrow> bool" where
  "wantsSubpages options d =
     (numTruthy (maxSubpages options) \<and> 0 < orZero (maxSubpages options) \<and> fcLinks d \<noteq> None)"

definition subpageUrls :: "Options \<Rightarrow> string list \<Rightarrow> string list" where
  "subpageUrls options links =
     slice0 links (min (orZero (maxSubpages options)) (of_nat (length links)))"

definition subpageOptions :: "Options \<Rightarrow> Options" where
  "subpageOptions options =
     options\<lparr>maxSubpages := Some 0, maxDepth := Some (orOne (maxDepth options) - 1)\<rparr>"

inductive firecrawlCrawl :: "Libs \<Rightarrow> Web \<Rightarrow> Env \<Rightarrow> (Error + FirecrawlResponse) \<Rightarrow> string \<Rightarrow> Options
    \<Rightarrow> Error + PageResult \<Rightarrow> bool"
  for L :: Libs and W :: Web and e :: Env and response :: "Error + FirecrawlResponse"
    and u :: string and options :: Options
where
  unavailable:
    "\<not> firecrawlAvailable e \<Longrightarrow>
     firecrawlCrawl L W e response u options
       (Inl (mkError ''Firecrawl not available: FIRECRAWL_API_KEY not set''))"
| failed:
    "firecrawlAvailable e \<Longrightarrow> response = Inl error \<Longrightarrow>
     firecrawlCrawl L W e response u options (firecrawlCatch error)"
| single:
    "firecrawlAvailable e \<Longrightarrow> response = Inr resp \<Longrightarrow>
     \<not> wantsSubpages options (firecrawlData resp) \<Longrightarrow>
     firecrawlCrawl L W e response u options
       (Inr (normalizeFirecrawlResultToCrawl (firecrawlData resp) u 0))"
| batchFailed:
    "firecrawlAvailable e \<Longrightarrow> response = Inr resp \<Longrightarrow>
     wantsSubpages options (firecrawlData resp) \<Longrightarrow>
     fcLinks (firecrawlData resp) = Some links \<Longrightarrow>
     cheerioCrawlBatch L W (subpageUrls options links) (subpageOptions options) (Inl error) \<Longrightarrow>
     firecrawlCrawl L W e response u options (firecrawlCatch error)"
| withSubpages:
    "firecrawlAvailable e \<Longrightarrow> response = Inr resp \<Longrightarrow>
     wantsSubpages options (firecrawlData resp) \<Longrightarrow>
     fcLinks (firecrawlData resp) = Some links \<Longrightarrow>
     cheerioCrawlBatch L W (subpageUrls options links) (subpageOptions options)
       (Inr subpageResults) \<Longrightarrow>
     firecrawlCrawl L W e response u options
       (Inr (withSubpages
               (Some (map (\<lambda>r. withDepth (Some ((case depth r of None \<Rightarrow> 0 | Some k \<Rightarrow> k) + 1)) r)
                        (results subpageResults)))
               (normalizeFirecrawlResultToCrawl (firecrawlData resp) u 0)))"

code_pred firecrawlCrawl .

section \<open>Result trees\<close>

text \<open>All pages of a result: the page itself and, recursively, the pages under \<open>subpages\<close>.\<close>

fun nodes :: "PageResult \<Rightarrow> PageResult list" where
  "nodes (PageResult u t m h md p sp d) =
     PageResult u t m h md p sp d
       # (case sp of None \<Rightarrow> [] | Some children \<Rightarrow> concat (map nodes children))"

text \<open>
  \<open>depthsFrom d r\<close>: the page \<open>r\<close> has depth \<open>d\<close> and every page under it has the depth
  of its parent plus one. \<open>depthAtMost m r\<close>: every page of \<open>r\<close> has a depth, and it is
  at most \<open>m\<close>. \<open>withinMaxChars n r\<close>: the text of the page \<open>r\<close>, and its markdown when
  present, have at most \<open>n\<close> characters.
\<close>

fun depthsFrom :: "int \<Rightarrow> PageResult \<Rightarrow> bool" where
  "depthsFrom d (PageResult u t m h md p sp dd) =
     (dd = Some d \<and> (case sp of None \<Rightarrow> True | Some children \<Rightarrow> list_all (depthsFrom (d + 1)) children))"

definition depthAtMost :: "rat \<Rightarrow> PageResult \<Rightarrow> bool" where
  "depthAtMost m r =
     list_all (\<lambda>n. case depth n of None \<Rightarrow> False | Some k \<Rightarrow> of_int k \<le> m) (nodes r)"

definition withinMaxChars :: "rat \<Rightarrow> PageResult \<Rightarrow> bool" where
  "withinMaxChars n r =
     (of_nat (length (text' r)) \<le> n
      \<and> (case markdown r of None \<Rightarrow> True | Some m \<Rightarrow> of_nat (length m) \<le> n))"

definition shaped :: "rat \<Rightarrow> int \<Rightarrow> PageResult \<Rightarrow> bool" where
  "shaped m d page = (depthsFrom d page \<and> depthAtMost m page)"

text \<open>
  \<open>crawled L options d page\<close>: the page is built the way \<^verbatim>\<open>crawlRecursive\<close> builds a page
  at depth \<open>d\<close>, from a page the Cheerio normalizer returns and, where it has children,
  pages built the same way one level down. \<open>wellFormed L options d t\<close> says the same of a
  task that is still under way: its depth is \<open>d\<close>, a call that has passed the depth test
  is at a depth within \<open>maxDepth\<close>, and a call that runs \<^verbatim>\<open>pMap\<close> has passed
  \<^verbatim>\<open>depth < maxDepth && maxSubpages > 0\<close>.
\<close>

inductive crawled :: "Libs \<Rightarrow> Options \<Rightarrow> int \<Rightarrow> PageResult \<Rightarrow> bool"
  for L :: Libs and options :: Options
where
  leaf:
    "normalizeCheerioResultToCrawl L rawHtml u options d = Inr result \<Longrightarrow>
     \<not> maxDepthOf options < of_int d \<Longrightarrow>
     crawled L options d result"
| node:
    "normalizeCheerioResultToCrawl L rawHtml u options d = Inr result \<Longrightarrow>
     of_int d < maxDepthOf options \<Longrightarrow> 0 < maxSubpagesOf options \<Longrightarrow>
     \<forall>c \<in> set cs. crawled L options (d + 1) c \<Longrightarrow>
     crawled L options d (withSubpages (Some cs) result)"

fun wellFormed :: "Libs \<Rightarrow> Options \<Rightarrow> int \<Rightarrow> Task \<Rightarrow> bool" where
  "wellFormed L options d (Pending link) = True"
| "wellFormed L options d (Fetching u k) = (k = d \<and> \<not> maxDepthOf options < of_int d)"
| "wellFormed L options d (Mapping result k ts) =
     (k = d
      \<and> (\<exists>rawHtml u. normalizeCheerioResultToCrawl L rawHtml u options d = Inr result)
      \<and> of_int d < maxDepthOf options \<and> 0 < maxSubpagesOf options
      \<and> (\<forall>t \<in> set ts. wellFormed L options (d + 1) t))"
| "wellFormed L options d (Finished (Inr page)) = crawled L options d page"
| "wellFormed L options d (Finished (Inl e)) = True"

text \<open>
  What is needed to see that a crawl ends. \<open>settled options t\<close> holds of a task on which
  \<open>settle\<close> has nothing left to do: every \<^verbatim>\<open>pMap\<close> in it has an unfinished mapper and
  either no pending item or no free slot. \<open>sound\<close> keeps the part of it that a response
  does not disturb: \<^verbatim>\<open>pMap\<close> only runs with a concurrency it accepts. \<open>weight options d t\<close>
  bounds the number of responses the task \<open>t\<close> at depth \<open>d\<close> can still wait for: a page
  has at most \<open>fanOut\<close> children, and \<open>levels options d\<close> levels lie between the depth
  \<open>d\<close> and \<open>maxDepth\<close>.
\<close>

fun isPending :: "Task \<Rightarrow> bool" where
  "isPending (Pending link) = True"
| "isPending t = False"

fun budget :: "nat \<Rightarrow> nat \<Rightarrow> nat" where
  "budget b 0 = 1"
| "budget b (Suc k) = 1 + b * budget b k"

definition levels :: "Options \<Rightarrow> int \<Rightarrow> nat" where
  "levels options d = nat (\<lceil>maxDepthOf options\<rceil> - d)"

definition fanOut :: "Options \<Rightarrow> nat" where
  "fanOut options = nat (toInteger (maxSubpagesOf options))"

fun weight :: "Options \<Rightarrow> int \<Rightarrow> Task \<Rightarrow> nat" where
  "weight options d (Pending link) = budget (fanOut options) (levels options d)"
| "weight options d (Fetching u k) = budget (fanOut options) (levels options d)"
| "weight options d (Mapping result k ts) = sum_list (map (weight options (d + 1)) ts)"
| "weight options d (Finished r) = 0"

fun sound :: "Options \<Rightarrow> Task \<Rightarrow> bool" where
  "sound options (Mapping result d ts) =
     (validConcurrency (concurrencyOf options) \<and> (\<forall>t \<in> set ts. sound options t))"
| "sound options t = True"

fun settled :: "Options \<Rightarrow> Task \<Rightarrow> bool" where
  "settled options (Mapping result d ts) =
     (validConcurrency (concurrencyOf options)
      \<and> \<not> list_all isFinished ts
      \<and> (\<forall>t \<in> set ts. settled options t)
      \<and> ((\<forall>t \<in> set ts. \<not> isPending t)
           \<or> nat (toInteger (concurrencyOf options)) \<le> length (filter unresolved ts)))"
| "settled options t = True"

section \<open>Histories of the provider table\<close>

text \<open>
  The table is process-wide and requests overlap, so between two reads anything any request
  does to it may happen. An event is one call of a function of the tracker;
  \<open>replay\<close> applies a history to a table. \<open>keepsCooldown p r\<close> holds of the events
  that neither record a success or a further rate limit for \<open>p\<close> nor read \<open>p\<close> at or
  after the time \<open>r\<close>; \<open>cooling p r\<close> says that \<open>p\<close> is flagged with reset time \<open>r\<close>.
\<close>

datatype Event =
    Read ScrapingProvider int
  | ListProviders Env int
  | Succeeded ScrapingProvider int
  | RateLimited ScrapingProvider int
  | Failed ScrapingProvider

fun applyEvent :: "Event \<Rightarrow> ProviderTable \<Rightarrow> ProviderTable" where
  "applyEvent (Read q t) st = snd (isRateLimited q t st)"
| "applyEvent (ListProviders e t) st = snd (getAvailableProviders e t st)"
| "applyEvent (Succeeded q t) st = recordSuccess q t st"
| "applyEvent (RateLimited q t) st = recordRateLimit q t st"
| "applyEvent (Failed q) st = recordError q st"

definition replay :: "Event list \<Rightarrow> ProviderTable \<Rightarrow> ProviderTable" where
  "replay evs st = fold applyEvent evs st"

fun keepsCooldown :: "ScrapingProvider \<Rightarrow> int \<Rightarrow> Event \<Rightarrow> bool" where
  "keepsCooldown p r (Read q t) = (q \<noteq> p \<or> t < r)"
| "keepsCooldown p r (ListProviders e t) = (t < r)"
| "keepsCooldown p r (Succeeded q t) = (q \<noteq> p)"
| "keepsCooldown p r (RateLimited q t) = (q \<noteq> p)"
| "keepsCooldown p r (Failed q) = True"

definition cooling :: "ScrapingProvider \<Rightarrow> int \<Rightarrow> ProviderTable \<Rightarrow> bool" where
  "cooling p r st = (isLimited (rateLimit (st p)) \<and> resetAt (rateLimit (st p)) = Some r)"

section \<open>Concrete inputs\<close>

definition keyed :: Env where
  "keyed = \<lparr>EXA_API_KEY = Some ''k'', FIRECRAWL_API_KEY = None, FC_API_KEY = None\<rparr>"

definition freshSystem :: "Env \<Rightarrow> System" where
  "freshSystem e = \<lparr>state = initProviders e createRateLimitState, clock = 0, calls = []\<rparr>"

definition samplePage :: "ScrapingProvider \<Rightarrow> PageResult" where
  "samplePage p = PageResult ''https://example.com'' ''Example Domain'' (Some ''# Example Domain'')
     None [] p None None"

definition http500 :: Error where
  "http500 = mkError ''HTTP error! status: 500 for https://example.com''"

definition tooMany :: Error where
  "tooMany = \<lparr>message = ''Exa rate limit: 429 Too Many Requests'', isRateLimit = True\<rparr>"

text \<open>A world where Cheerio answers with a plain HTTP failure and Exa would succeed.\<close>

definition cheerioDown :: World where
  "cheerioDown =
     \<lparr>env = keyed,
      adapterRun = (\<lambda>p u options.
        case p of Cheerio \<Rightarrow> (Inl http500, 120)
                | Exa \<Rightarrow> (Inr (samplePage Exa), 300)
                | Firecrawl \<Rightarrow> (Inr (samplePage Firecrawl), 300))\<rparr>"

text \<open>
  A world where Exa is throttled and Cheerio is down; Firecrawl would answer, but has no key.
\<close>

definition exaThrottled :: World where
  "exaThrottled =
     \<lparr>env = keyed,
      adapterRun = (\<lambda>p u options.
        case p of Exa \<Rightarrow> (Inl tooMany, 80)
                | Cheerio \<Rightarrow> (Inl http500, 120)
                | Firecrawl \<Rightarrow> (Inr (samplePage Firecrawl), 90))\<rparr>"

definition strictFirecrawl :: Options where
  "strictFirecrawl = noOptions\<lparr>optProvider := Some Firecrawl, fallback := Some False\<rparr>"

definition strictExa :: Options where
  "strictExa = noOptions\<lparr>optProvider := Some Exa, fallback := Some False\<rparr>"

text \<open>The system ten milliseconds after a rate limit was recorded for Exa at time 0.\<close>

definition exaCooling :: System where
  "exaCooling =
     \<lparr>state = recordRateLimit Exa 0 (initProviders keyed createRateLimitState),
      clock = 10, calls = []\<rparr>"

definition preferExa :: Options where
  "preferExa = noOptions\<lparr>optProvider := Some Exa\<rparr>"

text \<open>
  A site of one page: the home page links to \<^verbatim>\<open>/a\<close> (twice), to a fragment, to a mail
  address, to another host and to something that is no URL; every page but the home page
  answers 500. The libraries are stand-ins that return fixed values.
\<close>

definition homeHtml :: string where
  "homeHtml = ''<a href=/a>a</a><a href=#top>top</a>''"

definition demoLibs :: Libs where
  "demoLibs =
     \<lparr>readability = (\<lambda>h u. if h = [] then None
         else Some \<lparr>artTitle = Some ''Home'', artContent = Some h, artTextContent = Some ''Welcome'',
                    byline = None, lang = None, excerpt = None, siteName = None\<rparr>),
      documentLang = (\<lambda>h. ''en''),
      titleText = (\<lambda>h. ''Home''),
      metaContent = (\<lambda>h a v. None),
      linkHref = (\<lambda>h r. None),
      sanitize = (\<lambda>h. h),
      turndown = (\<lambda>h. h),
      bodyText = (\<lambda>h. h),
      anchorHrefs = (\<lambda>h. if h = homeHtml
         then [''/a'', ''#top'', ''mailto:me@example.com'', [], ''/a'', ''https://other.org/z'', ''http://[bad'']
         else []),
      resolveUrl = (\<lambda>href base.
         if href = ''/a'' then Some ''https://example.com/a''
         else if href = ''https://other.org/z'' then Some ''https://other.org/z''
         else None),
      urlHostname = (\<lambda>u.
         if u = ''https://example.com'' \<or> u = ''https://example.com/a'' then Some ''example.com''
         else if u = ''https://other.org/z'' then Some ''other.org''
         else None),
      concurrencyMessage = (\<lambda>c. ''Expected concurrency to be an integer from 1 and up'')\<rparr>"

definition demoWeb :: Web where
  "demoWeb = (\<lambda>u. if u = ''https://example.com''
                    then Inr \<lparr>ok = True, status = 200, body = homeHtml\<rparr>
                    else Inr \<lparr>ok = False, status = 500, body = []\<rparr>)"

definition oneLevel :: Options where
  "oneLevel = noOptions\<lparr>maxSubpages := Some 1, maxDepth := Some 1\<rparr>"

definition rootOnly :: Options where
  "rootOnly = noOptions\<lparr>maxSubpages := Some 1, maxDepth := Some 0\<rparr>"

text \<open>
  A site of three pages: the home page links to \<^verbatim>\<open>/a\<close> and to \<^verbatim>\<open>/b\<close>, and \<^verbatim>\<open>/a\<close> links to
  \<^verbatim>\<open>/b\<close>. The body of a page is its name.
\<close>

definition siteLibs :: Libs where
  "siteLibs =
     demoLibs\<lparr>anchorHrefs := (\<lambda>h. if h = ''home'' then [''/a'', ''/b'']
                                   else if h = ''a'' then [''/b''] else []),
               resolveUrl := (\<lambda>href base.
                  if href = ''/a'' then Some ''https://example.com/a''
                  else if href = ''/b'' then Some ''https://example.com/b''
                  else None),
               urlHostname := (\<lambda>u. Some ''example.com'')\<rparr>"

definition siteWeb :: Web where
  "siteWeb = (\<lambda>u. if u = ''https://example.com'' then Inr \<lparr>ok = True, status = 200, body = ''home''\<rparr>
                    else if u = ''https://example.com/a'' then Inr \<lparr>ok = True, status = 200, body = ''a''\<rparr>
                    else if u = ''https://example.com/b'' then Inr \<lparr>ok = True, status = 200, body = ''b''\<rparr>
                    else Inr \<lparr>ok = False, status = 404, body = []\<rparr>)"

definition twoLevels :: "rat option \<Rightarrow> Options" where
  "twoLevels c = noOptions\<lparr>maxSubpages := Some 2, maxDepth := Some 2, concurrency := c\<rparr>"

definition sitePage :: "string \<Rightarrow> string \<Rightarrow> int \<Rightarrow> PageResult" where
  "sitePage u h d = PageResult u ''Welcome'' (Some h) None
     [(''title'', JString ''Home''), (''description'', JString []), (''author'', JString []),
      (''publishedDate'', JString []), (''image'', JString []), (''favicon'', JString []),
      (''language'', JString ''en''), (''excerpt'', JUndefined), (''siteName'', JUndefined),
      (''sourceURL'', JString u)]
     Cheerio None (Some d)"

definition homePage :: PageResult where
  "homePage = PageResult ''https://example.com'' ''Welcome'' (Some homeHtml) None
     [(''title'', JString ''Home''), (''description'', JString []), (''author'', JString []),
      (''publishedDate'', JString []), (''image'', JString []), (''favicon'', JString []),
      (''language'', JString ''en''), (''excerpt'', JUndefined), (''siteName'', JUndefined),
      (''sourceURL'', JString ''https://example.com'')]
     Cheerio None (Some 0)"

definition exaLeaf :: "string \<Rightarrow> string \<Rightarrow> ExaResult list option \<Rightarrow> ExaResult" where
  "exaLeaf u t sps = ExaResult (Some u) (Some t) None None None None None None None sps []"

definition exaNested :: ExaResult where
  "exaNested =
     exaLeaf ''https://example.com'' ''Home''
       (Some [exaLeaf ''https://example.com/a'' ''A''
                (Some [exaLeaf ''https://example.com/a/b'' ''B'' None])])"

definition exaPage :: "string \<Rightarrow> string \<Rightarrow> PageResult list option \<Rightarrow> int \<Rightarrow> PageResult" where
  "exaPage u t sps d =
     PageResult u t (Some t) None
       [(''title'', JUndefined), (''description'', JUndefined), (''author'', JUndefined),
        (''publishedDate'', JUndefined), (''image'', JUndefined), (''favicon'', JUndefined),
        (''sourceURL'', JString u)]
       Exa sps (Some d)"

definition fcEnv :: Env where
  "fcEnv = \<lparr>EXA_API_KEY = None, FIRECRAWL_API_KEY = Some ''fc-key'', FC_API_KEY = None\<rparr>"

definition fcResponse :: "string option \<Rightarrow> FirecrawlResponse" where
  "fcResponse md =
     \<lparr>frData = Some \<lparr>fcMarkdown = md, fcHtml = None, fcMetadata = None, fcLinks = None\<rparr>,
      frMarkdown = None, frHtml = None, frMetadata = None, frLinks = None\<rparr>"

definition fcWorld :: "FirecrawlResponse \<Rightarrow> World" where
  "fcWorld response =
     \<lparr>env = fcEnv,
      adapterRun = (\<lambda>p u options.
        case p of Firecrawl \<Rightarrow> (firecrawlScrape fcEnv (Inr response) u options, 150)
                | Exa \<Rightarrow> (Inl http500, 90)
                | Cheerio \<Rightarrow> (Inl http500, 120))\<rparr>"

definition fcPage :: "string \<Rightarrow> string option \<Rightarrow> PageResult" where
  "fcPage t md =
     PageResult ''https://example.com'' t md None
       [(''title'', JUndefined), (''description'', JUndefined), (''language'', JUndefined),
        (''keywords'', JUndefined), (''image'', JUndefined), (''statusCode'', JUndefined),
        (''sourceURL'', JString ''https://example.com'')]
       Firecrawl None None"

definition firecrawlMax5 :: Options where
  "firecrawlMax5 = noOptions\<lparr>optProvider := Some Firecrawl, maxChars := Some 5\<rparr>"

section \<open>Properties of the provider state tracker\<close>

text \<open>
  C10. \<^verbatim>\<open>recordSuccess(p)\<close> stamps \<open>lastSuccess\<close> of \<open>p\<close> with the current time, clears
  \<open>isLimited\<close> and resets \<open>errors\<close> to 0; the \<open>available\<close> flag and \<open>resetAt\<close> of \<open>p\<close> keep
  their values, and the entry of every other provider is the one it was. Whatever error
  count \<open>p\<close> had accumulated is gone after one success.
\<close>

theorem recordSuccess_frame:
  "lastSuccess (recordSuccess p now st p) = Some now
   \<and> isLimited (rateLimit (recordSuccess p now st p)) = False
   \<and> errors (rateLimit (recordSuccess p now st p)) = 0
   \<and> available (recordSuccess p now st p) = available (st p)
   \<and> resetAt (rateLimit (recordSuccess p now st p)) = resetAt (rateLimit (st p))
   \<and> (\<forall>q. q \<noteq> p \<longrightarrow> recordSuccess p now st q = st q)"
  by (simp add: recordSuccess_def)

theorem recordSuccess_frame_witness:
  "errors (rateLimit (recordSuccess Exa 5 (recordError Exa (recordError Exa createRateLimitState)) Exa)) = 0
   \<and> errors (rateLimit (recordError Exa (recordError Exa createRateLimitState) Exa)) = 2
   \<and> Firecrawl \<noteq> Exa
   \<and> recordSuccess Exa 5 (recordError Exa (recordError Exa createRateLimitState)) Firecrawl
       = recordError Exa (recordError Exa createRateLimitState) Firecrawl"
  using recordSuccess_frame [of Exa 5 "recordError Exa (recordError Exa createRateLimitState)"]
  by (simp add: recordError_def createRateLimitState_def createInitialState_def)

lemma isRateLimited_other: "q \<noteq> p \<Longrightarrow> snd (isRateLimited q now st) p = st p"
  by (simp add: isRateLimited_def split: option.splits)

lemma isRateLimited_fst:
  "fst (isRateLimited p now st) =
     (isLimited (rateLimit (st p)) \<and>
      (case resetAt (rateLimit (st p)) of Some r \<Rightarrow> now < r | None \<Rightarrow> True))"
  by (simp add: isRateLimited_def split: option.splits)

lemma isRateLimited_fst_other:
  "q \<noteq> p \<Longrightarrow> fst (isRateLimited p now (snd (isRateLimited q t st))) = fst (isRateLimited p now st)"
  by (simp add: isRateLimited_fst isRateLimited_other)

lemma filterUsable_entry:
  "p \<notin> set ps \<Longrightarrow> snd (filterUsable e now ps st) p = st p"
proof (induction ps arbitrary: st)
  case Nil
  then show ?case by simp
next
  case (Cons q ps)
  then have qp: "q \<noteq> p" and np: "p \<notin> set ps" by auto
  show ?case
    using Cons.IH [OF np] isRateLimited_other [OF qp]
    by (simp split: prod.splits) (metis snd_conv)
qed

lemma filterUsable_mem:
  "distinct ps \<Longrightarrow>
   p \<in> set (fst (filterUsable e now ps st))
     \<longleftrightarrow> p \<in> set ps \<and> adapterAvailable e p \<and> \<not> fst (isRateLimited p now st)"
proof (induction ps arbitrary: st)
  case Nil
  then show ?case by simp
next
  case (Cons q ps)
  then have d: "distinct ps" and nq: "q \<notin> set ps" by auto
  show ?case
  proof (cases "adapterAvailable e q")
    case False
    then show ?thesis using Cons.IH [OF d] by auto
  next
    case True
    obtain l st1 where r: "isRateLimited q now st = (l, st1)" by (cases "isRateLimited q now st")
    obtain rest st2 where f: "filterUsable e now ps st1 = (rest, st2)" by (cases "filterUsable e now ps st1")
    have st1: "st1 = snd (isRateLimited q now st)" using r by simp
    have ih: "p \<in> set rest \<longleftrightarrow> p \<in> set ps \<and> adapterAvailable e p \<and> \<not> fst (isRateLimited p now st1)"
      using Cons.IH [OF d, of st1] f by simp
    show ?thesis
    proof (cases "p = q")
      case True
      then have "p \<notin> set rest" using ih nq by simp
      then show ?thesis using True \<open>adapterAvailable e q\<close> r f by simp
    next
      case False
      then have "fst (isRateLimited p now st1) = fst (isRateLimited p now st)"
        unfolding st1 using isRateLimited_fst_other [of q p] by simp
      then show ?thesis using False \<open>adapterAvailable e q\<close> r f ih by simp
    qed
  qed
qed

lemma usable_iff:
  "p \<in> set (fst (getAvailableProvidersInternal e now st))
     \<longleftrightarrow> adapterAvailable e p \<and> \<not> fst (isRateLimited p now st)"
proof -
  have "p \<in> set [Exa, Firecrawl, Cheerio]" by (cases p) simp_all
  then show ?thesis
    unfolding getAvailableProvidersInternal_def
    using filterUsable_mem [of "[Exa, Firecrawl, Cheerio]" p e now st] by simp
qed

lemma cooling_read: "cooling p r st \<Longrightarrow> q \<noteq> p \<or> t < r \<Longrightarrow> cooling p r (snd (isRateLimited q t st))"
  by (cases "q = p") (auto simp add: cooling_def isRateLimited_def split: option.splits)

lemma cooling_filterUsable:
  "cooling p r st \<Longrightarrow> t < r \<Longrightarrow> cooling p r (snd (filterUsable e t ps st))"
proof (induction ps arbitrary: st)
  case Nil
  then show ?case by simp
next
  case (Cons q ps)
  have c1: "cooling p r (snd (isRateLimited q t st))"
    using cooling_read [OF Cons.prems(1), of q t] Cons.prems(2) by simp
  show ?case
    using Cons.IH [OF c1 Cons.prems(2)] Cons.IH [OF Cons.prems]
    by (simp split: prod.splits) (metis snd_conv)
qed

lemma cooling_event:
  "cooling p r st \<Longrightarrow> keepsCooldown p r ev \<Longrightarrow> cooling p r (applyEvent ev st)"
proof (cases ev)
  case (Read q t)
  assume "cooling p r st" "keepsCooldown p r ev"
  then show ?thesis using Read cooling_read [of p r st q t] by simp
next
  case (ListProviders e t)
  assume "cooling p r st" "keepsCooldown p r ev"
  then have "cooling p r (snd (filterUsable e t [Exa, Firecrawl, Cheerio] st))"
    using ListProviders by (intro cooling_filterUsable) simp_all
  then show ?thesis
    unfolding ListProviders applyEvent.simps getAvailableProviders_def
      getAvailableProvidersInternal_def .
next
  case (Succeeded q t)
  assume "cooling p r st" "keepsCooldown p r ev"
  then show ?thesis using Succeeded by (simp add: cooling_def recordSuccess_def)
next
  case (RateLimited q t)
  assume "cooling p r st" "keepsCooldown p r ev"
  then show ?thesis using RateLimited by (simp add: cooling_def recordRateLimit_def)
next
  case (Failed q)
  assume "cooling p r st" "keepsCooldown p r ev"
  then show ?thesis using Failed by (cases "q = p") (simp_all add: cooling_def recordError_def)
qed

lemma cooling_replay:
  "cooling p r st \<Longrightarrow> \<forall>ev \<in> set evs. keepsCooldown p r ev \<Longrightarrow> cooling p r (replay evs st)"
  unfolding replay_def
  by (induction evs arbitrary: st) (simp_all add: cooling_event)

lemma cooling_recordRateLimit: "cooling p (now + RATE_LIMIT_COOLDOWN_MS) (recordRateLimit p now st)"
  by (simp add: cooling_def recordRateLimit_def)

lemma cooling_before: "cooling p r st \<Longrightarrow> t < r \<Longrightarrow> isRateLimited p t st = (True, st)"
  by (simp add: cooling_def isRateLimited_def)

lemma cooling_after:
  "cooling p r st \<Longrightarrow> r \<le> t \<Longrightarrow>
     fst (isRateLimited p t st) = False
     \<and> isLimited (rateLimit (snd (isRateLimited p t st) p)) = False
     \<and> resetAt (rateLimit (snd (isRateLimited p t st) p)) = None"
  by (simp add: cooling_def isRateLimited_def)

text \<open>
  C8, as amended. After \<^verbatim>\<open>recordRateLimit(p)\<close> at time \<open>now\<close> the reset time of \<open>p\<close> is
  \<open>now + RATE_LIMIT_COOLDOWN_MS\<close>. Through any history in which no success and no further
  rate limit is recorded for \<open>p\<close> (and in which \<open>p\<close> has only been read before the
  reset time), a read strictly before the reset time answers "limited", leaves the table
  as it is, and \<^verbatim>\<open>getAvailableProviders\<close> does not list \<open>p\<close>; the first read at or after
  the reset time answers "not limited" and clears both the flag and the timestamp, and
  \<open>p\<close> is listed again when its adapter is available.
\<close>

theorem cooldown_holds_until_resetAt:
  assumes "\<forall>ev \<in> set evs. keepsCooldown p (now + RATE_LIMIT_COOLDOWN_MS) ev"
  shows "(t < now + RATE_LIMIT_COOLDOWN_MS \<longrightarrow>
            isRateLimited p t (replay evs (recordRateLimit p now st))
              = (True, replay evs (recordRateLimit p now st))
            \<and> p \<notin> set (fst (getAvailableProviders e t (replay evs (recordRateLimit p now st)))))
       \<and> (now + RATE_LIMIT_COOLDOWN_MS \<le> t \<longrightarrow>
            fst (isRateLimited p t (replay evs (recordRateLimit p now st))) = False
            \<and> isLimited (rateLimit (snd (isRateLimited p t (replay evs (recordRateLimit p now st))) p)) = False
            \<and> resetAt (rateLimit (snd (isRateLimited p t (replay evs (recordRateLimit p now st))) p)) = None
            \<and> (adapterAvailable e p \<longrightarrow>
                 p \<in> set (fst (getAvailableProviders e t (replay evs (recordRateLimit p now st))))))"
proof -
  let ?r = "now + RATE_LIMIT_COOLDOWN_MS"
  let ?s = "replay evs (recordRateLimit p now st)"
  have c: "cooling p ?r ?s"
    using cooling_replay [OF cooling_recordRateLimit assms] .
  have before: "t < ?r \<Longrightarrow> isRateLimited p t ?s = (True, ?s)"
    using cooling_before [OF c] .
  have after: "?r \<le> t \<Longrightarrow> fst (isRateLimited p t ?s) = False
     \<and> isLimited (rateLimit (snd (isRateLimited p t ?s) p)) = False
     \<and> resetAt (rateLimit (snd (isRateLimited p t ?s) p)) = None"
    using cooling_after [OF c] .
  show ?thesis
    using before after usable_iff [of p e t ?s]
    by (simp add: getAvailableProviders_def)
qed

theorem cooldown_holds_until_resetAt_witness:
  "keepsCooldown Exa (0 + RATE_LIMIT_COOLDOWN_MS) (Read Exa 10)
   \<and> keepsCooldown Exa (0 + RATE_LIMIT_COOLDOWN_MS) (Failed Exa)
   \<and> keepsCooldown Exa (0 + RATE_LIMIT_COOLDOWN_MS) (Succeeded Cheerio 20)
   \<and> keepsCooldown Exa (0 + RATE_LIMIT_COOLDOWN_MS) (ListProviders keyed 30)
   \<and> fst (isRateLimited Exa 59999
        (replay [Read Exa 10, Failed Exa, Succeeded Cheerio 20, ListProviders keyed 30]
           (recordRateLimit Exa 0 createRateLimitState))) = True
   \<and> fst (isRateLimited Exa 60000
        (replay [Read Exa 10, Failed Exa, Succeeded Cheerio 20, ListProviders keyed 30]
           (recordRateLimit Exa 0 createRateLimitState))) = False"
proof -
  have h: "\<forall>ev \<in> set [Read Exa 10, Failed Exa, Succeeded Cheerio 20, ListProviders keyed 30].
       keepsCooldown Exa (0 + RATE_LIMIT_COOLDOWN_MS) ev"
    by (simp add: RATE_LIMIT_COOLDOWN_MS_def)
  show ?thesis
    using h
      cooldown_holds_until_resetAt [OF h, of 59999 createRateLimitState keyed]
      cooldown_holds_until_resetAt [OF h, of 60000 createRateLimitState keyed]
    by (simp add: RATE_LIMIT_COOLDOWN_MS_def)
qed

text \<open>
  C8 as stated fails: a success recorded for the provider (a request that was already in
  flight when the rate limit was recorded) clears the flag at once. Rate limit at time 0,
  success at time 1: the read at time 2 finds Exa usable, 59998 ms before the reset time.
\<close>

theorem success_ends_cooldown_early:
  "(2::int) < 0 + RATE_LIMIT_COOLDOWN_MS
   \<and> fst (isRateLimited Exa 2 (recordSuccess Exa 1 (recordRateLimit Exa 0 createRateLimitState))) = False
   \<and> Exa \<in> set (fst (getAvailableProviders keyed 2
                       (recordSuccess Exa 1 (recordRateLimit Exa 0 createRateLimitState))))"
  by (simp add: RATE_LIMIT_COOLDOWN_MS_def getAvailableProviders_def usable_iff isRateLimited_fst
        recordSuccess_def keyed_def truthy_def)

section \<open>Properties of selection and fallback\<close>

lemma selectProvider_none:
  assumes "p \<notin> set (fst (getAvailableProvidersInternal e now st))"
  shows "fst (selectProvider e (Some p) False options now st) = None"
  using assms by (cases "getAvailableProvidersInternal e now st") (auto simp: selectProvider_def)

lemma scrape_unavailable:
  assumes pref: "optProvider options = Some p"
      and fb: "fallback options = Some False"
      and nu: "p \<notin> set (fst (getAvailableProvidersInternal (env w) (clock sys) (state sys)))"
  shows "fst (scrape w u options sys) = Inl (providerNotAvailableError (Some p))
         \<and> calls (snd (scrape w u options sys)) = calls sys"
proof -
  obtain r st1 where sel: "selectProvider (env w) (Some p) False (scrapeDefaults options) (clock sys) (state sys) = (r, st1)"
    by (cases "selectProvider (env w) (Some p) False (scrapeDefaults options) (clock sys) (state sys)")
  have "r = None" using selectProvider_none [OF nu, of "scrapeDefaults options"] sel by simp
  then show ?thesis
    using sel pref fb by (simp add: scrape_def scrapeDefaults_def orDefault_def Let_def)
qed

lemma crawl_unavailable:
  assumes pref: "optProvider options = Some p"
      and fb: "fallback options = Some False"
      and nu: "p \<notin> set (fst (getAvailableProvidersInternal (env w) (clock sys) (state sys)))"
  shows "fst (crawl w u options sys) = Inl (providerNotAvailableError (Some p))
         \<and> calls (snd (crawl w u options sys)) = calls sys"
proof -
  obtain r st1 where sel: "selectProvider (env w) (Some p) False (crawlDefaults options) (clock sys) (state sys) = (r, st1)"
    by (cases "selectProvider (env w) (Some p) False (crawlDefaults options) (clock sys) (state sys)")
  have "r = None" using selectProvider_none [OF nu, of "crawlDefaults options"] sel by simp
  then show ?thesis
    using sel pref fb by (simp add: crawl_def crawlDefaults_def orDefault_def Let_def)
qed

text \<open>
  C5. When a provider is preferred, fallback is \<^verbatim>\<open>false\<close> and the provider is not
  usable (its adapter is unavailable, or it is rate-limited), \<^verbatim>\<open>scrape\<close> and \<^verbatim>\<open>crawl\<close>
  throw the error "Provider ... not available and fallback disabled", and the log of
  adapter invocations is the one before the call: no adapter ran in its place.
\<close>

theorem preferred_unusable_no_substitution:
  assumes pref: "optProvider options = Some p"
      and fb: "fallback options = Some False"
      and nu: "\<not> adapterAvailable (env w) p \<or> fst (isRateLimited p (clock sys) (state sys))"
  shows "fst (scrape w u options sys) = Inl (providerNotAvailableError (Some p))
         \<and> calls (snd (scrape w u options sys)) = calls sys
         \<and> fst (crawl w u options sys) = Inl (providerNotAvailableError (Some p))
         \<and> calls (snd (crawl w u options sys)) = calls sys"
proof -
  have "p \<notin> set (fst (getAvailableProvidersInternal (env w) (clock sys) (state sys)))"
    using nu by (simp add: usable_iff)
  then show ?thesis
    using scrape_unavailable [OF pref fb] crawl_unavailable [OF pref fb] by simp
qed

theorem preferred_unusable_no_substitution_witness:
  "optProvider strictFirecrawl = Some Firecrawl
   \<and> fallback strictFirecrawl = Some False
   \<and> \<not> adapterAvailable (env cheerioDown) Firecrawl
   \<and> fst (scrape cheerioDown ''https://example.com'' strictFirecrawl (freshSystem keyed))
       = Inl (providerNotAvailableError (Some Firecrawl))
   \<and> calls (snd (scrape cheerioDown ''https://example.com'' strictFirecrawl (freshSystem keyed))) = []
   \<and> calls (snd (crawl cheerioDown ''https://example.com'' strictFirecrawl (freshSystem keyed))) = []
   \<and> optProvider strictExa = Some Exa
   \<and> fallback strictExa = Some False
   \<and> fst (isRateLimited Exa (clock exaCooling) (state exaCooling))
   \<and> fst (scrape cheerioDown ''https://example.com'' strictExa exaCooling)
       = Inl (providerNotAvailableError (Some Exa))
   \<and> calls (snd (scrape cheerioDown ''https://example.com'' strictExa exaCooling)) = []"
proof -
  have a: "optProvider strictFirecrawl = Some Firecrawl"
    and b: "fallback strictFirecrawl = Some False"
    by (simp_all add: strictFirecrawl_def noOptions_def)
  have c: "\<not> adapterAvailable (env cheerioDown) Firecrawl"
    by (simp add: cheerioDown_def keyed_def truthy_def)
  have d: "calls (freshSystem keyed) = []"
    by (simp add: freshSystem_def)
  have a': "optProvider strictExa = Some Exa"
    and b': "fallback strictExa = Some False"
    by (simp_all add: strictExa_def noOptions_def)
  have c': "fst (isRateLimited Exa (clock exaCooling) (state exaCooling))"
    by (simp add: isRateLimited_fst exaCooling_def recordRateLimit_def RATE_LIMIT_COOLDOWN_MS_def)
  have d': "calls exaCooling = []"
    by (simp add: exaCooling_def)
  show ?thesis
    using a b c d a' b' c' d'
      preferred_unusable_no_substitution [OF a b disjI1 [OF c], of "''https://example.com''" "freshSystem keyed"]
      preferred_unusable_no_substitution [OF a' b' disjI2 [OF c'], of cheerioDown "''https://example.com''"]
    by simp
qed

text \<open>
  C6. When the adapter of the selected provider fails with an error that does not carry
  \<^verbatim>\<open>isRateLimit\<close>, \<^verbatim>\<open>tryWithFallback\<close> throws that very error; the only adapter invoked is
  the selected one, whatever the fallback flag says; and the table changes in one place:
  the error count of that provider goes up by one.
\<close>

theorem tryWithFallback_plain_error:
  assumes run: "adapterRun w p u options = (Inl e, took)"
      and nrl: "\<not> isRateLimit e"
  shows "tryWithFallback w u options p sys =
           (Inl e, sys\<lparr>clock := clock sys + int took, calls := calls sys @ [p],
                       state := recordError p (state sys)\<rparr>)
         \<and> recordError p (state sys) p =
             (state sys p)\<lparr>rateLimit := (rateLimit (state sys p))
                \<lparr>errors := errors (rateLimit (state sys p)) + 1\<rparr>\<rparr>
         \<and> (\<forall>q. q \<noteq> p \<longrightarrow> recordError p (state sys) q = state sys q)"
  using run nrl by (simp add: tryWithFallback_def callAdapter_def recordError_def)

theorem tryWithFallback_plain_error_witness:
  "adapterRun cheerioDown Cheerio ''https://example.com'' noOptions = (Inl http500, 120)
   \<and> \<not> isRateLimit http500
   \<and> fst (tryWithFallback cheerioDown ''https://example.com'' noOptions Cheerio (freshSystem keyed))
       = Inl http500
   \<and> calls (snd (tryWithFallback cheerioDown ''https://example.com'' noOptions Cheerio
                    (freshSystem keyed))) = [Cheerio]
   \<and> errors (rateLimit (state (snd (tryWithFallback cheerioDown ''https://example.com'' noOptions
                    Cheerio (freshSystem keyed))) Cheerio)) = 1
   \<and> Exa \<noteq> Cheerio
   \<and> state (snd (tryWithFallback cheerioDown ''https://example.com'' noOptions Cheerio
                    (freshSystem keyed))) Exa = state (freshSystem keyed) Exa"
proof -
  have a: "adapterRun cheerioDown Cheerio ''https://example.com'' noOptions = (Inl http500, 120)"
    by (simp add: cheerioDown_def)
  have b: "\<not> isRateLimit http500"
    by (simp add: http500_def mkError_def)
  have c: "errors (rateLimit (state (freshSystem keyed) Cheerio)) = 0"
    and d: "calls (freshSystem keyed) = []"
    by (simp_all add: freshSystem_def initProviders_def setAvailable_def
          createRateLimitState_def createInitialState_def)
  show ?thesis
    using a b c d tryWithFallback_plain_error [OF a b, of "freshSystem keyed"]
    by simp
qed

lemma tryAlternatives_calls:
  "\<exists>rest. calls (snd (tryAlternatives w u options alts sys)) = calls sys @ rest"
proof (induction alts arbitrary: sys)
  case Nil
  then show ?case by simp
next
  case (Cons a alts)
  show ?case
  proof (cases "adapterAvailable (env w) a")
    case False
    then show ?thesis using Cons.IH [of sys] by simp
  next
    case True
    obtain l st1 where r: "isRateLimited a (clock sys) (state sys) = (l, st1)"
      by (cases "isRateLimited a (clock sys) (state sys)")
    show ?thesis
    proof (cases l)
      case True
      then show ?thesis
        using \<open>adapterAvailable (env w) a\<close> r Cons.IH [of "sys\<lparr>state := st1\<rparr>"] by simp
    next
      case False
      obtain out took where run: "adapterRun w a u options = (out, took)"
        by (cases "adapterRun w a u options")
      show ?thesis
      proof (cases out)
        case (Inr res)
        then show ?thesis
          using \<open>adapterAvailable (env w) a\<close> r False run by (simp add: callAdapter_def)
      next
        case (Inl err)
        let ?s2 = "sys\<lparr>state := st1, clock := clock sys + int took, calls := calls sys @ [a]\<rparr>"
        let ?s3 = "?s2\<lparr>state := (if isRateLimit err
                                then recordRateLimit a (clock ?s2) (state ?s2)
                                else recordError a (state ?s2))\<rparr>"
        obtain rest where "calls (snd (tryAlternatives w u options alts ?s3)) = calls ?s3 @ rest"
          using Cons.IH [of ?s3] by blast
        then show ?thesis
          using \<open>adapterAvailable (env w) a\<close> r False run Inl by (simp add: callAdapter_def)
      qed
    qed
  qed
qed

lemma tryWithFallback_calls:
  "\<exists>rest. calls (snd (tryWithFallback w u options p sys)) = calls sys @ p # rest"
proof -
  obtain out took where run: "adapterRun w p u options = (out, took)"
    by (cases "adapterRun w p u options")
  let ?s1 = "sys\<lparr>clock := clock sys + int took, calls := calls sys @ [p]\<rparr>"
  let ?s2 = "?s1\<lparr>state := recordRateLimit p (clock ?s1) (state ?s1)\<rparr>"
  obtain rest where alt: "calls (snd (tryAlternatives w u options (alternatives p) ?s2)) = calls ?s2 @ rest"
    using tryAlternatives_calls by blast
  show ?thesis
  proof (cases out)
    case (Inr res)
    then show ?thesis using run by (simp add: tryWithFallback_def callAdapter_def)
  next
    case (Inl err)
    then show ?thesis using run alt
      by (cases "tryAlternatives w u options (alternatives p) ?s2"; cases "fst (tryAlternatives w u options (alternatives p) ?s2)")
         (simp_all add: tryWithFallback_def callAdapter_def)
  qed
qed

lemma scrape_cases:
  "(\<exists>p s1. scrape w u options sys = tryWithFallback w u (scrapeDefaults options) p s1 \<and> calls s1 = calls sys)
   \<or> calls (snd (scrape w u options sys)) = calls sys"
proof -
  let ?o = "scrapeDefaults options"
  obtain r st1 where sel: "selectProvider (env w) (optProvider ?o) (fallback ?o \<noteq> Some False) ?o (clock sys) (state sys) = (r, st1)"
    by (cases "selectProvider (env w) (optProvider ?o) (fallback ?o \<noteq> Some False) ?o (clock sys) (state sys)")
  show ?thesis
  proof (cases r)
    case (Some p)
    then have "scrape w u options sys = tryWithFallback w u ?o p (sys\<lparr>state := st1\<rparr>)"
      using sel by (simp add: scrape_def Let_def)
    then show ?thesis by (intro disjI1 exI [of _ p] exI [of _ "sys\<lparr>state := st1\<rparr>"]) simp
  next
    case None
    show ?thesis
    proof (cases "fallback ?o \<noteq> Some False")
      case True
      let ?p = "case optProvider ?o of Some p \<Rightarrow> p | None \<Rightarrow> Cheerio"
      have "scrape w u options sys = tryWithFallback w u ?o ?p (sys\<lparr>state := st1\<rparr>)"
        using sel None True by (simp add: scrape_def Let_def)
      then show ?thesis by (intro disjI1 exI [of _ ?p] exI [of _ "sys\<lparr>state := st1\<rparr>"]) simp
    next
      case False
      then show ?thesis using sel None by (simp add: scrape_def Let_def)
    qed
  qed
qed

lemma tryAlternatives_Some:
  "tryAlternatives w u options alts sys = (Some r, sys') \<Longrightarrow>
     \<exists>pre q took. calls sys' = calls sys @ pre @ [q] \<and> adapterRun w q u options = (Inr r, took)"
proof (induction alts arbitrary: sys)
  case Nil
  then show ?case by simp
next
  case (Cons a alts)
  show ?case
  proof (cases "adapterAvailable (env w) a")
    case False
    then show ?thesis using Cons by simp
  next
    case True
    obtain l st1 where rl: "isRateLimited a (clock sys) (state sys) = (l, st1)"
      by (cases "isRateLimited a (clock sys) (state sys)")
    show ?thesis
    proof (cases l)
      case True
      then have "tryAlternatives w u options alts (sys\<lparr>state := st1\<rparr>) = (Some r, sys')"
        using Cons.prems \<open>adapterAvailable (env w) a\<close> rl by simp
      from Cons.IH [OF this] show ?thesis by simp
    next
      case False
      obtain out took where run: "adapterRun w a u options = (out, took)"
        by (cases "adapterRun w a u options")
      show ?thesis
      proof (cases out)
        case (Inr res)
        then have "r = res" and "calls sys' = calls sys @ [a]"
          using Cons.prems \<open>adapterAvailable (env w) a\<close> rl False run
          by (auto simp add: callAdapter_def)
        then show ?thesis using run Inr by (intro exI [of _ "[]"] exI [of _ a] exI [of _ took]) simp
      next
        case (Inl err)
        let ?s2 = "sys\<lparr>state := st1, clock := clock sys + int took, calls := calls sys @ [a]\<rparr>"
        let ?s3 = "?s2\<lparr>state := (if isRateLimit err
                                then recordRateLimit a (clock ?s2) (state ?s2)
                                else recordError a (state ?s2))\<rparr>"
        have "tryAlternatives w u options alts ?s3 = (Some r, sys')"
          using Cons.prems \<open>adapterAvailable (env w) a\<close> rl False run Inl
          by (simp add: callAdapter_def)
        from Cons.IH [OF this] obtain pre q t where
          "calls sys' = calls ?s3 @ pre @ [q]" and "adapterRun w q u options = (Inr r, t)" by blast
        then show ?thesis
          by (intro exI [of _ "a # pre"] exI [of _ q] exI [of _ t]) simp
      qed
    qed
  qed
qed

lemma tryWithFallback_rate_limited:
  assumes run: "adapterRun w p u options = (Inl e, took)"
      and rl: "isRateLimit e"
  shows "fst (tryWithFallback w u options p sys) = Inl e
         \<or> (\<exists>r pre q t. fst (tryWithFallback w u options p sys) = Inr r
               \<and> calls (snd (tryWithFallback w u options p sys)) = calls sys @ p # pre @ [q]
               \<and> adapterRun w q u options = (Inr r, t))"
proof (cases "fallback options \<noteq> Some False")
  case False
  then show ?thesis using run rl by (simp add: tryWithFallback_def callAdapter_def)
next
  case True
  let ?s1 = "sys\<lparr>clock := clock sys + int took, calls := calls sys @ [p]\<rparr>"
  let ?s2 = "?s1\<lparr>state := recordRateLimit p (clock ?s1) (state ?s1)\<rparr>"
  obtain res s3 where alt: "tryAlternatives w u options (alternatives p) ?s2 = (res, s3)"
    by (cases "tryAlternatives w u options (alternatives p) ?s2")
  show ?thesis
  proof (cases res)
    case None
    then show ?thesis using run rl True alt by (simp add: tryWithFallback_def callAdapter_def)
  next
    case (Some r)
    then obtain pre q t where "calls s3 = calls ?s2 @ pre @ [q]"
      and "adapterRun w q u options = (Inr r, t)"
      using tryAlternatives_Some alt by blast
    then show ?thesis
      using run rl True alt Some by (simp add: tryWithFallback_def callAdapter_def)
  qed
qed

text \<open>
  C7. When the first adapter that \<^verbatim>\<open>scrape\<close> invokes fails with an error carrying
  \<^verbatim>\<open>isRateLimit\<close>, and every adapter invoked after it (the alternates that were not
  skipped as unusable) fails as well, \<^verbatim>\<open>scrape\<close> throws the error of that first adapter,
  which is not the "no providers available" error.
\<close>

theorem scrape_reraises_rate_limit:
  assumes first: "calls (snd (scrape w u options sys)) = calls sys @ p # rest"
      and run: "adapterRun w p u (scrapeDefaults options) = (Inl e, took)"
      and rl: "isRateLimit e"
      and alts: "\<forall>q \<in> set rest. \<exists>e' t'. adapterRun w q u (scrapeDefaults options) = (Inl e', t')"
  shows "fst (scrape w u options sys) = Inl e
         \<and> fst (scrape w u options sys) \<noteq> Inl noProvidersError"
proof -
  from scrape_cases [of w u options sys] first
  obtain p' s1 where eq: "scrape w u options sys = tryWithFallback w u (scrapeDefaults options) p' s1"
    and c: "calls s1 = calls sys"
    by auto
  obtain rest' where "calls (snd (tryWithFallback w u (scrapeDefaults options) p' s1)) = calls s1 @ p' # rest'"
    using tryWithFallback_calls by blast
  then have pp: "p' = p" using first eq c by simp
  have "fst (scrape w u options sys) = Inl e"
  proof (rule ccontr)
    assume "fst (scrape w u options sys) \<noteq> Inl e"
    then obtain r pre q t where
      "calls (snd (tryWithFallback w u (scrapeDefaults options) p s1)) = calls s1 @ p # pre @ [q]"
      and ok: "adapterRun w q u (scrapeDefaults options) = (Inr r, t)"
      using tryWithFallback_rate_limited [OF run rl, of s1] eq pp by auto
    then have "rest = pre @ [q]" using first eq pp c by simp
    then have "q \<in> set rest" by simp
    then show False using alts ok by auto
  qed
  moreover have "e \<noteq> noProvidersError"
    using rl by (auto simp add: noProvidersError_def mkError_def)
  ultimately show ?thesis by simp
qed

theorem scrape_reraises_rate_limit_witness:
  "calls (snd (scrape exaThrottled ''https://example.com'' preferExa (freshSystem keyed)))
     = calls (freshSystem keyed) @ Exa # [Cheerio]
   \<and> adapterRun exaThrottled Exa ''https://example.com'' (scrapeDefaults preferExa) = (Inl tooMany, 80)
   \<and> isRateLimit tooMany
   \<and> adapterRun exaThrottled Cheerio ''https://example.com'' (scrapeDefaults preferExa) = (Inl http500, 120)
   \<and> fst (scrape exaThrottled ''https://example.com'' preferExa (freshSystem keyed)) = Inl tooMany"
proof -
  have sel: "selectProvider keyed (Some Exa) True (scrapeDefaults preferExa) 0
               (initProviders keyed createRateLimitState)
             = (Some Exa, initProviders keyed createRateLimitState)"
    by (simp add: selectProvider_def getAvailableProvidersInternal_def isRateLimited_def
          initProviders_def setAvailable_def createRateLimitState_def createInitialState_def
          keyed_def truthy_def)
  have a: "calls (snd (scrape exaThrottled ''https://example.com'' preferExa (freshSystem keyed)))
             = calls (freshSystem keyed) @ Exa # [Cheerio]"
    using sel
    by (simp add: scrape_def scrapeDefaults_def preferExa_def noOptions_def orDefault_def
          freshSystem_def exaThrottled_def tryWithFallback_def callAdapter_def tooMany_def
          http500_def mkError_def alternatives_def keyed_def truthy_def isRateLimited_def
          recordRateLimit_def initProviders_def setAvailable_def createRateLimitState_def
          createInitialState_def)
  have b: "adapterRun exaThrottled Exa ''https://example.com'' (scrapeDefaults preferExa) = (Inl tooMany, 80)"
    by (simp add: exaThrottled_def)
  have c: "isRateLimit tooMany"
    by (simp add: tooMany_def)
  have e: "adapterRun exaThrottled Cheerio ''https://example.com'' (scrapeDefaults preferExa) = (Inl http500, 120)"
    by (simp add: exaThrottled_def)
  have d: "\<forall>q \<in> set [Cheerio].
             \<exists>e' t'. adapterRun exaThrottled q ''https://example.com'' (scrapeDefaults preferExa) = (Inl e', t')"
    using e by simp
  show ?thesis
    using a b c e scrape_reraises_rate_limit [OF a b c d]
    by simp
qed

section \<open>Properties of the link extractor\<close>

lemma addAll_set: "set (addAll seen xs) = set seen \<union> set xs"
  by (induction xs arbitrary: seen) auto

lemma addAll_distinct: "distinct seen \<Longrightarrow> distinct (addAll seen xs)"
  by (induction xs arbitrary: seen) auto

lemma addAll_snoc:
  "addAll seen (xs @ [x]) =
     (if x \<in> set (addAll seen xs) then addAll seen xs else addAll seen xs @ [x])"
  by (induction xs arbitrary: seen) auto

lemma uniq_set: "set (uniq xs) = set xs"
  by (simp add: uniq_def addAll_set)

lemma uniq_distinct: "distinct (uniq xs)"
  by (simp add: uniq_def addAll_distinct)

lemma uniq_snoc: "uniq (xs @ [x]) = (if x \<in> set xs then uniq xs else uniq xs @ [x])"
  by (simp add: uniq_def addAll_snoc addAll_set)

lemma uniq_first_seen: "uniq xs = rev (remdups (rev xs))"
  by (induction xs rule: rev_induct) (simp_all add: uniq_snoc, simp add: uniq_def)

lemma collectLinks_set:
  "l \<in> set (collectLinks L baseUrl host same hrefs)
     \<longleftrightarrow> (\<exists>href \<in> set hrefs. followed L baseUrl host same href l)"
proof (induction hrefs)
  case Nil
  then show ?case by simp
next
  case (Cons h hs)
  show ?case
  proof (cases "h = [] \<or> prefix ''#'' h \<or> prefix ''mailto:'' h")
    case True
    then have "\<not> followed L baseUrl host same h l" by (auto simp add: followed_def)
    then show ?thesis using True Cons.IH by auto
  next
    case False
    show ?thesis
    proof (cases "resolveUrl L h baseUrl")
      case None
      then have "\<not> followed L baseUrl host same h l" by (simp add: followed_def)
      then show ?thesis using False None Cons.IH by auto
    next
      case (Some a)
      show ?thesis
      proof (cases "urlHostname L a")
        case None
        then have "\<not> followed L baseUrl host same h l" using Some by (auto simp add: followed_def)
        then show ?thesis using False Some None Cons.IH by auto
      next
        case (Some d)
        have f: "followed L baseUrl host same h l
                 \<longleftrightarrow> l = a \<and> (same \<longrightarrow> d = host) \<and> (prefix ''http://'' a \<or> prefix ''https://'' a)"
          using False \<open>resolveUrl L h baseUrl = Some a\<close> Some by (auto simp add: followed_def)
        show ?thesis
          using False \<open>resolveUrl L h baseUrl = Some a\<close> Some Cons.IH f by auto
      qed
    qed
  qed
qed

text \<open>
  C9. For a base URL that parses, \<^verbatim>\<open>extractLinks\<close> returns a list without duplicates in which
  every entry starts with \<^verbatim>\<open>http://\<close> or \<^verbatim>\<open>https://\<close>. An URL is in the list exactly when
  some anchor target that is not empty, does not start with \<^verbatim>\<open>#\<close> or \<^verbatim>\<open>mailto:\<close> and
  resolves against the base URL (a target that does not resolve is skipped) resolves to
  it, its host is the host of the base URL when \<open>sameDomainOnly\<close> is set, and it is an
  http or https URL. The list is the list of pushed links with every repetition after the
  first removed, so the order is that of first appearance.
\<close>

theorem extractLinks_spec:
  assumes "urlHostname L baseUrl = Some host"
  shows "\<exists>links. extractLinks L rawHtml baseUrl same = Inr links
           \<and> distinct links
           \<and> (\<forall>l \<in> set links. prefix ''http://'' l \<or> prefix ''https://'' l)
           \<and> (\<forall>l. l \<in> set links \<longleftrightarrow>
                  (\<exists>href \<in> set (anchorHrefs L rawHtml).
                      href \<noteq> [] \<and> \<not> prefix ''#'' href \<and> \<not> prefix ''mailto:'' href
                      \<and> resolveUrl L href baseUrl = Some l
                      \<and> (\<exists>d. urlHostname L l = Some d \<and> (same \<longrightarrow> d = host))
                      \<and> (prefix ''http://'' l \<or> prefix ''https://'' l)))
           \<and> links = rev (remdups (rev (collectLinks L baseUrl host same (anchorHrefs L rawHtml))))"
proof -
  let ?raw = "collectLinks L baseUrl host same (anchorHrefs L rawHtml)"
  have e: "extractLinks L rawHtml baseUrl same = Inr (uniq ?raw)"
    using assms by (simp add: extractLinks_def)
  have m: "\<forall>l. l \<in> set (uniq ?raw) \<longleftrightarrow>
              (\<exists>href \<in> set (anchorHrefs L rawHtml). followed L baseUrl host same href l)"
    by (simp add: uniq_set collectLinks_set)
  have h: "\<forall>l \<in> set (uniq ?raw). prefix ''http://'' l \<or> prefix ''https://'' l"
    using m by (auto simp add: followed_def)
  show ?thesis
    using e m h uniq_distinct [of ?raw] uniq_first_seen [of ?raw]
    unfolding followed_def by blast
qed

lemma demo_links:
  "extractLinks demoLibs homeHtml ''https://example.com'' True = Inr [''https://example.com/a'']"
  by (simp add: extractLinks_def demoLibs_def uniq_def)

lemma demo_links_all:
  "extractLinks demoLibs homeHtml ''https://example.com'' False
     = Inr [''https://example.com/a'', ''https://other.org/z'']"
  by (simp add: extractLinks_def demoLibs_def uniq_def)

theorem extractLinks_spec_witness:
  "urlHostname demoLibs ''https://example.com'' = Some ''example.com''
   \<and> extractLinks demoLibs homeHtml ''https://example.com'' True = Inr [''https://example.com/a'']
   \<and> collectLinks demoLibs ''https://example.com'' ''example.com'' True (anchorHrefs demoLibs homeHtml)
       = [''https://example.com/a'', ''https://example.com/a'']"
proof -
  have h: "urlHostname demoLibs ''https://example.com'' = Some ''example.com''"
    by (simp add: demoLibs_def)
  have c: "collectLinks demoLibs ''https://example.com'' ''example.com'' True (anchorHrefs demoLibs homeHtml)
             = [''https://example.com/a'', ''https://example.com/a'']"
    by (simp add: demoLibs_def)
  show ?thesis
    using h c extractLinks_spec [OF h, of homeHtml True]
    by auto
qed

section \<open>Properties of the crawl engine\<close>

text \<open>
  A task that has returned ends the run with what it returned, and where one response is
  awaited the next step is determined.
\<close>

lemma crawlRuns_Finished: "crawlRuns L W options V (Finished x) r \<longleftrightarrow> r = x"
  by (auto elim: crawlRuns.cases intro: crawlRuns.returned)

lemma crawlRuns_single:
  assumes "awaited t = [u]"
  shows "crawlRuns L W options V t r \<longleftrightarrow>
           crawlRuns L W options (snd (settle L options V (complete L W options V u t)))
             (fst (settle L options V (complete L W options V u t))) r"
proof
  assume "crawlRuns L W options V t r"
  then show "crawlRuns L W options (snd (settle L options V (complete L W options V u t)))
             (fst (settle L options V (complete L W options V u t))) r"
    using assms by (cases rule: crawlRuns.cases) auto
next
  assume a: "crawlRuns L W options (snd (settle L options V (complete L W options V u t)))
             (fst (settle L options V (complete L W options V u t))) r"
  show "crawlRuns L W options V t r"
    by (rule crawlRuns.arrived [where u = u, OF _ _ a]) (simp_all add: assms)
qed

lemma crawlRuns_pair:
  assumes "awaited t = [u, v]"
  shows "crawlRuns L W options V t r \<longleftrightarrow>
           crawlRuns L W options (snd (settle L options V (complete L W options V u t)))
             (fst (settle L options V (complete L W options V u t))) r
           \<or> crawlRuns L W options (snd (settle L options V (complete L W options V v t)))
               (fst (settle L options V (complete L W options V v t))) r"
proof
  assume "crawlRuns L W options V t r"
  then show "crawlRuns L W options (snd (settle L options V (complete L W options V u t)))
             (fst (settle L options V (complete L W options V u t))) r
           \<or> crawlRuns L W options (snd (settle L options V (complete L W options V v t)))
               (fst (settle L options V (complete L W options V v t))) r"
    using assms by (cases rule: crawlRuns.cases) auto
next
  assume "crawlRuns L W options (snd (settle L options V (complete L W options V u t)))
             (fst (settle L options V (complete L W options V u t))) r
           \<or> crawlRuns L W options (snd (settle L options V (complete L W options V v t)))
               (fst (settle L options V (complete L W options V v t))) r"
  then show "crawlRuns L W options V t r"
  proof
    assume a: "crawlRuns L W options (snd (settle L options V (complete L W options V u t)))
             (fst (settle L options V (complete L W options V u t))) r"
    show ?thesis by (rule crawlRuns.arrived [where u = u, OF _ _ a]) (simp_all add: assms)
  next
    assume a: "crawlRuns L W options (snd (settle L options V (complete L W options V v t)))
             (fst (settle L options V (complete L W options V v t))) r"
    show ?thesis by (rule crawlRuns.arrived [where u = v, OF _ _ a]) (simp_all add: assms)
  qed
qed

lemma demo_home:
  "normalizeCheerioResultToCrawl demoLibs homeHtml ''https://example.com'' oneLevel 0 = Inr homePage"
  by (simp add: normalizeCheerioResultToCrawl_def normalizeCheerioResult_def cheerioMetadata_def
        demoLibs_def homeHtml_def oneLevel_def noOptions_def truthy_def orStr_def truncateTo_def
        jsOf_def withDepth_def homePage_def)

lemma oneLevel_numbers:
  "maxDepthOf oneLevel = 1" "maxSubpagesOf oneLevel = 1" "concurrencyOf oneLevel = 5"
  "sameDomainOnly oneLevel = None"
  by (simp_all add: oneLevel_def noOptions_def maxDepthOf_def maxSubpagesOf_def concurrencyOf_def
        orZero_def numTruthy_def)

lemma toInteger_numeral [simp]: "toInteger (numeral n) = numeral n" "toInteger 1 = 1" "toInteger 0 = 0"
  by (simp_all add: toInteger_def)

lemma valid5: "validConcurrency 5"
  by (simp add: validConcurrency_def)

lemma demo_enter_home:
  "crawlRecursiveEnter demoLibs oneLevel {} ''https://example.com'' 0
     = (Fetching ''https://example.com'' 0, {''https://example.com''})"
  by (simp add: crawlRecursiveEnter_def oneLevel_numbers demoLibs_def)

lemma demo_resume_home:
  "crawlRecursiveResume demoLibs demoWeb oneLevel {''https://example.com''} ''https://example.com'' 0
     = Mapping homePage 0 [Pending ''https://example.com/a'']"
  by (simp add: crawlRecursiveResume_def demoWeb_def demo_home demo_links oneLevel_numbers
        slice0_def valid5)

lemma demo_enter_child:
  "crawlRecursiveEnter demoLibs oneLevel {''https://example.com''} ''https://example.com/a'' 1
     = (Fetching ''https://example.com/a'' 1, {''https://example.com/a'', ''https://example.com''})"
  by (simp add: crawlRecursiveEnter_def oneLevel_numbers demoLibs_def)

lemma demo_resume_child:
  "crawlRecursiveResume demoLibs demoWeb oneLevel V ''https://example.com/a'' 1
     = Finished (Inl (mkError (''HTTP error! status: '' @ showNat 500 @ '' for https://example.com/a'')))"
  by (simp add: crawlRecursiveResume_def demoWeb_def)

text \<open>
  C3 at the input where it fails. Cheerio crawl of the home page with \<open>maxSubpages = 1\<close>
  and \<open>maxDepth = 1\<close>: one link is found and attempted, its fetch answers 500, and the
  result carries \<open>subpages\<close> as the empty list, not an absent field. One fetch is awaited
  at any time, so this is the only result the crawl can end with.
\<close>

theorem cheerio_all_children_failed:
  "{r. cheerioCrawl demoLibs demoWeb ''https://example.com'' oneLevel r}
     = {Inr (withSubpages (Some []) homePage)}
   \<and> subpages (withSubpages (Some []) homePage) = Some []"
proof -
  have "cheerioCrawl demoLibs demoWeb ''https://example.com'' oneLevel r
          \<longleftrightarrow> r = Inr (withSubpages (Some []) homePage)" for r
    unfolding cheerioCrawl_def demo_enter_home
    apply (simp add: crawlRuns_single [where u = "''https://example.com''"] demo_resume_home
        freeSlots_def oneLevel_numbers demo_enter_child)
    apply (simp add: crawlRuns_single [where u = "''https://example.com/a''"] demo_resume_child
        freeSlots_def oneLevel_numbers crawlRuns_Finished List.map_filter_simps)
    done
  then show ?thesis by (auto simp add: withSubpages_def)
qed

text \<open>
  The concurrency decides the tree. On the site of three pages, with two levels and two
  subpages per page: at concurrency 1 the page \<^verbatim>\<open>/b\<close> is reached from \<^verbatim>\<open>/a\<close> first and ends
  up under it, at depth 2; at the default concurrency 5 both children of the home page
  are entered in \<^verbatim>\<open>visitedUrls\<close> before any response is there, and \<^verbatim>\<open>/b\<close> ends up under the
  home page, at depth 1, whichever of the two responses arrives first. A concurrency of
  5/2 makes \<^verbatim>\<open>pMap\<close> throw, and the crawl with it.
\<close>

lemma site_normalize:
  "h \<noteq> [] \<Longrightarrow> normalizeCheerioResultToCrawl siteLibs h u (twoLevels c) d = Inr (sitePage u h d)"
  by (simp add: normalizeCheerioResultToCrawl_def normalizeCheerioResult_def cheerioMetadata_def
        siteLibs_def demoLibs_def twoLevels_def noOptions_def truthy_def orStr_def truncateTo_def
        jsOf_def withDepth_def sitePage_def)

lemma site_links:
  "extractLinks siteLibs ''home'' u True = Inr [''https://example.com/a'', ''https://example.com/b'']"
  "extractLinks siteLibs ''a'' u True = Inr [''https://example.com/b'']"
  "extractLinks siteLibs ''b'' u True = Inr []"
  by (simp_all add: extractLinks_def siteLibs_def demoLibs_def uniq_def)

lemma twoLevels_numbers:
  "maxDepthOf (twoLevels c) = 2" "maxSubpagesOf (twoLevels c) = 2"
  "sameDomainOnly (twoLevels c) = None"
  "concurrencyOf (twoLevels None) = 5" "concurrencyOf (twoLevels (Some 1)) = 1"
  "concurrencyOf (twoLevels (Some (5 / 2))) = 5 / 2"
  by (simp_all add: twoLevels_def noOptions_def maxDepthOf_def maxSubpagesOf_def concurrencyOf_def
        orZero_def numTruthy_def)

lemma site_enter:
  "crawlRecursiveEnter siteLibs (twoLevels c) V u d =
     (if u \<in> V \<or> 2 < d
      then (Finished (Inl (mkError (''URL already visited or max depth reached: '' @ u))), V)
      else (Fetching u d, insert u V))"
  by (simp add: crawlRecursiveEnter_def twoLevels_numbers siteLibs_def)

lemma site_resume_home:
  "validConcurrency (concurrencyOf (twoLevels c)) \<Longrightarrow>
   crawlRecursiveResume siteLibs siteWeb (twoLevels c) {''https://example.com''} ''https://example.com'' 0
     = Mapping (sitePage ''https://example.com'' ''home'' 0) 0
         [Pending ''https://example.com/a'', Pending ''https://example.com/b'']"
  by (simp add: crawlRecursiveResume_def siteWeb_def site_normalize site_links twoLevels_numbers
        slice0_def)

lemma site_resume_home_invalid:
  "\<not> validConcurrency (concurrencyOf (twoLevels c)) \<Longrightarrow>
   crawlRecursiveResume siteLibs siteWeb (twoLevels c) {''https://example.com''} ''https://example.com'' 0
     = Finished (Inl (mkError (concurrencyMessage siteLibs (concurrencyOf (twoLevels c)))))"
  by (simp add: crawlRecursiveResume_def siteWeb_def site_normalize site_links twoLevels_numbers
        slice0_def)

lemma site_resume_a:
  "validConcurrency (concurrencyOf (twoLevels c)) \<Longrightarrow>
   crawlRecursiveResume siteLibs siteWeb (twoLevels c) V ''https://example.com/a'' 1
     = (if ''https://example.com/b'' \<in> V
        then Finished (Inr (sitePage ''https://example.com/a'' ''a'' 1))
        else Mapping (sitePage ''https://example.com/a'' ''a'' 1) 1 [Pending ''https://example.com/b''])"
  by (simp add: crawlRecursiveResume_def siteWeb_def site_normalize site_links twoLevels_numbers
        slice0_def)

lemma site_resume_b:
  "crawlRecursiveResume siteLibs siteWeb (twoLevels c) V ''https://example.com/b'' d
     = Finished (Inr (sitePage ''https://example.com/b'' ''b'' d))"
  by (simp add: crawlRecursiveResume_def siteWeb_def site_normalize site_links twoLevels_numbers
        slice0_def)

lemma valid1: "validConcurrency 1" by (simp add: validConcurrency_def)

lemma invalid_half: "\<not> validConcurrency (5 / 2)"
proof -
  have "\<lfloor>5 / 2 :: rat\<rfloor> = 2" by (rule floor_unique) simp_all
  then show ?thesis by (simp add: validConcurrency_def)
qed

lemma one_at_a_time:
  "cheerioCrawl siteLibs siteWeb ''https://example.com'' (twoLevels (Some 1)) r
     \<longleftrightarrow> r = Inr (withSubpages
                     (Some [withSubpages (Some [sitePage ''https://example.com/b'' ''b'' 2])
                              (sitePage ''https://example.com/a'' ''a'' 1)])
                     (sitePage ''https://example.com'' ''home'' 0))"
  unfolding cheerioCrawl_def
  apply (simp add: site_enter)
  apply (simp add: crawlRuns_single [where u = "''https://example.com''"] site_resume_home
      twoLevels_numbers valid1 freeSlots_def site_enter)
  apply (simp add: crawlRuns_single [where u = "''https://example.com/a''"] site_resume_a
      twoLevels_numbers valid1 freeSlots_def site_enter)
  apply (simp add: crawlRuns_single [where u = "''https://example.com/b''"] site_resume_b
      twoLevels_numbers valid1 freeSlots_def site_enter crawlRuns_Finished List.map_filter_simps)
  done

lemma five_at_a_time:
  "cheerioCrawl siteLibs siteWeb ''https://example.com'' (twoLevels None) r
     \<longleftrightarrow> r = Inr (withSubpages
                     (Some [sitePage ''https://example.com/a'' ''a'' 1,
                            sitePage ''https://example.com/b'' ''b'' 1])
                     (sitePage ''https://example.com'' ''home'' 0))"
  unfolding cheerioCrawl_def
  apply (simp add: site_enter)
  apply (simp add: crawlRuns_single [where u = "''https://example.com''"] site_resume_home
      twoLevels_numbers valid5 freeSlots_def site_enter)
  apply (simp add: crawlRuns_pair [where u = "''https://example.com/a''" and v = "''https://example.com/b''"]
      site_resume_a site_resume_b twoLevels_numbers valid5 freeSlots_def site_enter)
  apply (simp add: crawlRuns_single [where u = "''https://example.com/a''"]
      crawlRuns_single [where u = "''https://example.com/b''"] site_resume_a site_resume_b
      twoLevels_numbers valid5 freeSlots_def site_enter crawlRuns_Finished List.map_filter_simps)
  done

lemma fraction_rejected:
  "cheerioCrawl siteLibs siteWeb ''https://example.com'' (twoLevels (Some (5 / 2))) r
     \<longleftrightarrow> r = Inl (mkError (concurrencyMessage siteLibs (5 / 2)))"
  unfolding cheerioCrawl_def
  apply (simp add: site_enter)
  apply (simp add: crawlRuns_single [where u = "''https://example.com''"] site_resume_home_invalid
      twoLevels_numbers invalid_half crawlRuns_Finished)
  done

lemma exaLeaf_norm:
  assumes "CHR ''<'' \<notin> set t" and "t \<noteq> []" and "u \<noteq> []"
      and o: "maxSubpages options = Some 1" "maxChars options = None"
             "optMarkdown options = None" "optHtml options = None"
  shows "normalizeExaResultToCrawl demoLibs (exaLeaf u t sps) base options d =
           exaPage u t
             (case sps of
                None \<Rightarrow> None
              | Some xs \<Rightarrow>
                  if xs = [] then None
                  else Some (map (\<lambda>sp. normalizeExaResultToCrawl demoLibs sp (orStr (exaUrl sp) base)
                                          options (d + 1))
                               (take 1 xs)))
             d"
  using assms(1-3)
  by (subst normalizeExaResultToCrawl.simps)
     (simp add: o Let_def exaLeaf_def exaPage_def orStr_def truthy_def truncateTo_def
        exaMetadata_def spread_def jsOf_def slice0_def orZero_def split: option.splits)

lemma oneLevel_fields:
  "maxSubpages oneLevel = Some 1" "maxChars oneLevel = None"
  "optMarkdown oneLevel = None" "optHtml oneLevel = None" "maxDepth oneLevel = Some 1"
  by (simp_all add: oneLevel_def noOptions_def)

lemma rootOnly_fields:
  "maxSubpages rootOnly = Some 1" "maxChars rootOnly = None"
  "optMarkdown rootOnly = None" "optHtml rootOnly = None" "maxDepth rootOnly = Some 0"
  by (simp_all add: rootOnly_def noOptions_def)

text \<open>
  C4 at the input where it fails. Exa answers with a page whose subpage has a subpage of
  its own; with \<open>maxDepth = 1\<close> the crawl result holds a page of depth 2. The same
  answer under \<open>maxDepth = 0\<close> gives a subpage of depth 1.
\<close>

theorem exa_depth_exceeds_maxDepth:
  "exaCrawl demoLibs keyed (Inr [exaNested]) ''https://example.com'' oneLevel
     = Inr (exaPage ''https://example.com'' ''Home''
              (Some [exaPage ''https://example.com/a'' ''A''
                       (Some [exaPage ''https://example.com/a/b'' ''B'' None 2]) 1]) 0)
   \<and> maxDepth oneLevel = Some 1
   \<and> exaPage ''https://example.com/a/b'' ''B'' None 2
       \<in> set (nodes (exaPage ''https://example.com'' ''Home''
              (Some [exaPage ''https://example.com/a'' ''A''
                       (Some [exaPage ''https://example.com/a/b'' ''B'' None 2]) 1]) 0))
   \<and> depth (exaPage ''https://example.com/a/b'' ''B'' None 2) = Some 2
   \<and> exaCrawl demoLibs keyed (Inr [exaNested]) ''https://example.com'' rootOnly
     = Inr (exaPage ''https://example.com'' ''Home''
              (Some [exaPage ''https://example.com/a'' ''A''
                       (Some [exaPage ''https://example.com/a/b'' ''B'' None 2]) 1]) 0)
   \<and> maxDepth rootOnly = Some 0"
  by (simp add: exaCrawl_def keyed_def truthy_def exaNested_def exaLeaf_norm orStr_def
        oneLevel_fields rootOnly_fields)
     (simp add: exaPage_def)

section \<open>Properties of the content normalizers\<close>

lemma fc_normalize:
  "normalizeFirecrawlResult (firecrawlData (fcResponse md)) ''https://example.com''
     = fcPage (orStr md []) md"
  by (cases md)
     (simp_all add: normalizeFirecrawlResult_def firecrawlData_def fcResponse_def fcPage_def
        metaField_def orStr_def truthy_def jsOf_def spread_def)

lemma fc_select:
  "selectProvider fcEnv (Some Firecrawl) True options 0 (initProviders fcEnv createRateLimitState)
     = (Some Firecrawl, initProviders fcEnv createRateLimitState)"
  by (simp add: selectProvider_def getAvailableProvidersInternal_def isRateLimited_def
        initProviders_def setAvailable_def createRateLimitState_def createInitialState_def
        fcEnv_def truthy_def)

lemma fc_scrape:
  "fst (scrape (fcWorld (fcResponse md)) ''https://example.com'' firecrawlMax5 (freshSystem fcEnv))
     = Inr (fcPage (orStr md []) md)"
proof -
  have o: "optProvider (scrapeDefaults firecrawlMax5) = Some Firecrawl"
          "fallback (scrapeDefaults firecrawlMax5) = Some True"
    by (simp_all add: scrapeDefaults_def firecrawlMax5_def noOptions_def orDefault_def)
  have k: "firecrawlAvailable fcEnv" by (simp add: firecrawlAvailable_def fcEnv_def truthy_def)
  show ?thesis
    by (simp add: scrape_def Let_def o freshSystem_def fcWorld_def fc_select tryWithFallback_def
          callAdapter_def firecrawlScrape_def k fc_normalize)
qed

text \<open>
  C1 at the input where it fails. \<^verbatim>\<open>scrape\<close> with \<open>provider = firecrawl\<close> and
  \<open>maxChars = 5\<close>, Firecrawl answering with the markdown \<^verbatim>\<open>Hello, world\<close>: the result has
  all twelve characters in \<open>text\<close> and in \<open>markdown\<close>.
\<close>

theorem firecrawl_ignores_maxChars:
  "fst (scrape (fcWorld (fcResponse (Some ''Hello, world''))) ''https://example.com''
          firecrawlMax5 (freshSystem fcEnv))
     = Inr (fcPage ''Hello, world'' (Some ''Hello, world''))
   \<and> maxChars firecrawlMax5 = Some 5
   \<and> text' (fcPage ''Hello, world'' (Some ''Hello, world'')) = ''Hello, world''
   \<and> markdown (fcPage ''Hello, world'' (Some ''Hello, world'')) = Some ''Hello, world''
   \<and> (5::int) < int (length ''Hello, world'')"
proof -
  have "maxChars firecrawlMax5 = Some 5"
    by (simp add: firecrawlMax5_def noOptions_def)
  then show ?thesis
    using fc_scrape [of "Some ''Hello, world''"] by (simp add: orStr_def fcPage_def)
qed

lemma firecrawl_text_empty:
  "\<not> truthy (fcMarkdown d) \<Longrightarrow> \<not> truthy (fcHtml d) \<Longrightarrow> text' (normalizeFirecrawlResult d u) = []"
  by (simp add: normalizeFirecrawlResult_def)

lemma exa_text_empty:
  "\<not> truthy (exaText r) \<Longrightarrow> text' (normalizeExaResult r u options) = []"
  by (simp add: normalizeExaResult_def orStr_def truthy_def split: option.splits)

text \<open>
  C2 at the input where it fails. \<^verbatim>\<open>scrape\<close> with \<open>provider = firecrawl\<close>, Firecrawl
  answering for a page without content: with the empty string as markdown, or with a
  \<^verbatim>\<open>data\<close> object that has neither markdown nor html. Either way the call succeeds and
  the \<open>text\<close> of the result is the empty string.
\<close>

theorem empty_text_on_success:
  "fst (scrape (fcWorld (fcResponse (Some []))) ''https://example.com'' firecrawlMax5 (freshSystem fcEnv))
     = Inr (fcPage [] (Some []))
   \<and> text' (fcPage [] (Some [])) = []
   \<and> fst (scrape (fcWorld (fcResponse None)) ''https://example.com'' firecrawlMax5 (freshSystem fcEnv))
     = Inr (fcPage [] None)
   \<and> text' (fcPage [] None) = []"
  using fc_scrape [of None] fc_scrape [of "Some []"] by (simp add: orStr_def fcPage_def)

section \<open>What the provider paths guarantee\<close>

text \<open>
  The facts below hold of the code for every input. They delimit the inputs at which the
  evaluations above leave the bounds: truncation is done by the Cheerio normalizer and
  by the Exa crawl normalizer, on every page of the tree; depths are consecutive on all
  three crawl paths and bounded by \<open>maxDepth\<close> on the Cheerio path; without a subpage
  budget no path sets \<open>subpages\<close>, and the Exa path never sets it to the empty list; the
  Cheerio normalizer throws where Readability finds no article. On the Cheerio path they
  hold in whatever order the responses arrive, and in any order the crawl ends.
\<close>

lemma cheerio_rejects_unreadable:
  "readability L rawHtml u = None \<Longrightarrow>
     normalizeCheerioResult L rawHtml u options
       = Inl (mkError (''Failed to parse readable content from: '' @ u))"
  by (simp add: normalizeCheerioResult_def)

lemma toInteger_le: "0 \<le> n \<Longrightarrow> of_int (toInteger n) \<le> n"
  by (simp add: toInteger_def)

lemma truncateTo_length: "0 < n \<Longrightarrow> of_nat (length (truncateTo (Some n) s)) \<le> n"
proof -
  assume n: "0 < n"
  have a: "(of_nat (nat (toInteger n)) :: rat) \<le> n"
    using n toInteger_le [of n] by (simp add: toInteger_def)
  show ?thesis
  proof (cases "n < of_nat (length s)")
    case True
    have "length (truncateTo (Some n) s) \<le> nat (toInteger n)"
      using True n by (simp add: truncateTo_def substring0_def)
    then have "(of_nat (length (truncateTo (Some n) s)) :: rat) \<le> of_nat (nat (toInteger n))"
      by (simp only: of_nat_le_iff)
    then show ?thesis using a by linarith
  next
    case False
    then show ?thesis by (simp add: truncateTo_def)
  qed
qed

lemma cheerio_fields:
  assumes "normalizeCheerioResult L rawHtml u options = Inr page"
  obtains article where "readability L rawHtml u = Some article"
    and "text' page = truncateTo (maxChars options) (orStr (artTextContent article) [])"
    and "markdown page =
           (if optMarkdown options \<noteq> Some False
            then (if turndown L (sanitize L (orStr (artContent article) rawHtml)) \<noteq> []
                  then Some (truncateTo (maxChars options)
                               (turndown L (sanitize L (orStr (artContent article) rawHtml))))
                  else Some [])
            else None)"
    and "subpages page = None" and "depth page = None"
proof (cases "readability L rawHtml u")
  case None
  then show ?thesis using assms by (simp add: normalizeCheerioResult_def)
next
  case (Some article)
  then have p: "page = PageResult u
             (truncateTo (maxChars options) (orStr (artTextContent article) []))
             (if optMarkdown options \<noteq> Some False
              then (if turndown L (sanitize L (orStr (artContent article) rawHtml)) \<noteq> []
                    then Some (truncateTo (maxChars options)
                                 (turndown L (sanitize L (orStr (artContent article) rawHtml))))
                    else Some [])
              else None)
             (if optHtml options = Some True
              then Some (sanitize L (orStr (artContent article) rawHtml)) else None)
             (cheerioMetadata L rawHtml article u) Cheerio None None"
    using assms by (auto simp add: normalizeCheerioResult_def Let_def truthy_def)
  show ?thesis
    by (rule that [OF Some]) (simp_all add: p)
qed

lemma cheerio_withinMaxChars:
  assumes "normalizeCheerioResult L rawHtml u options = Inr page"
      and "maxChars options = Some n" and "0 < n"
  shows "withinMaxChars n page"
proof (rule cheerio_fields [OF assms(1)])
  fix article
  assume t: "text' page = truncateTo (maxChars options) (orStr (artTextContent article) [])"
    and m: "markdown page =
           (if optMarkdown options \<noteq> Some False
            then (if turndown L (sanitize L (orStr (artContent article) rawHtml)) \<noteq> []
                  then Some (truncateTo (maxChars options)
                               (turndown L (sanitize L (orStr (artContent article) rawHtml))))
                  else Some [])
            else None)"
  show "withinMaxChars n page"
    unfolding withinMaxChars_def t m assms(2)
    using assms(3) by (simp add: truncateTo_length)
qed

lemma exa_fields:
  "text' (normalizeExaResultToCrawl L r u options d)
     = truncateTo (maxChars options)
         (if CHR ''<'' \<in> set (orStr (exaText r) []) \<and> CHR ''>'' \<in> set (orStr (exaText r) [])
          then bodyText L (orStr (exaText r) []) else orStr (exaText r) [])"
  "depth (normalizeExaResultToCrawl L r u options d) = Some d"
  "subpages (normalizeExaResultToCrawl L r u options d)
     = (case exaSubpages r of
          None \<Rightarrow> None
        | Some sps \<Rightarrow>
            if slice0 sps (orZero (maxSubpages options)) = [] then None
            else Some (map (\<lambda>subpage. normalizeExaResultToCrawl L subpage (orStr (exaUrl subpage) u)
                                          options (d + 1))
                         (slice0 sps (orZero (maxSubpages options)))))"
  by (subst normalizeExaResultToCrawl.simps, simp add: Let_def slice0_def split: option.splits)+

lemma exa_markdown_within:
  assumes "maxChars options = Some n" and "0 < n"
  shows "case markdown (normalizeExaResultToCrawl L r u options d) of
           None \<Rightarrow> True | Some m \<Rightarrow> of_nat (length m) \<le> n"
  apply (subst normalizeExaResultToCrawl.simps)
  using assms(2) apply (simp add: Let_def assms(1) truncateTo_length truthy_def)
  done

lemma exa_page_within:
  assumes "maxChars options = Some n" and "0 < n"
  shows "withinMaxChars n (normalizeExaResultToCrawl L r u options d)"
  using exa_markdown_within [OF assms, of L r u d] assms(2)
  by (simp add: withinMaxChars_def exa_fields(1) assms(1) truncateTo_length)

lemma nodes_unfold:
  "nodes r = r # (case subpages r of None \<Rightarrow> [] | Some children \<Rightarrow> concat (map nodes children))"
  by (cases r) simp

lemma list_all_concat: "list_all P (concat xss) \<longleftrightarrow> list_all (list_all P) xss"
  by (induction xss) simp_all

lemma exa_nodes_all:
  assumes "\<forall>L r u d. Q (normalizeExaResultToCrawl L r u options d)"
  shows "list_all Q (nodes (normalizeExaResultToCrawl L r u options d))"
  using assms
proof (induction L r u options d rule: normalizeExaResultToCrawl.induct)
  case (1 L r u options d)
  have kids: "list_all Q (nodes (normalizeExaResultToCrawl L sp (orStr (exaUrl sp) u) options (d + 1)))"
    if "exaSubpages r = Some sps" and "sp \<in> set (slice0 sps (orZero (maxSubpages options)))" for sps sp
  proof -
    have "sps \<noteq> []" using slice0_set [OF that(2)] by auto
    then show ?thesis
      using "1.IH" [OF refl refl refl refl refl refl that(1) _ that(2) "1.prems"] by simp
  qed
  show ?case
    apply (subst nodes_unfold)
    using "1.prems" kids
    apply (auto simp add: exa_fields(3) list_all_concat list_all_iff split: option.splits)
    done
qed

lemma exa_nodes_within:
  assumes "maxChars options = Some n" and "0 < n"
  shows "list_all (withinMaxChars n) (nodes (normalizeExaResultToCrawl L r u options d))"
  by (rule exa_nodes_all) (simp add: exa_page_within [OF assms])

lemma depthsFrom_unfold:
  "depthsFrom d r =
     (depth r = Some d
      \<and> (case subpages r of None \<Rightarrow> True | Some children \<Rightarrow> list_all (depthsFrom (d + 1)) children))"
  by (cases r) simp

lemma exa_depthsFrom: "depthsFrom d (normalizeExaResultToCrawl L r u options d)"
proof (induction L r u options d rule: normalizeExaResultToCrawl.induct)
  case (1 L r u options d)
  have kids: "depthsFrom (d + 1) (normalizeExaResultToCrawl L sp (orStr (exaUrl sp) u) options (d + 1))"
    if "exaSubpages r = Some sps" and "sp \<in> set (slice0 sps (orZero (maxSubpages options)))" for sps sp
  proof -
    have "sps \<noteq> []" using slice0_set [OF that(2)] by auto
    then show ?thesis
      using "1.IH" [OF refl refl refl refl refl refl that(1) _ that(2)] by simp
  qed
  show ?case
    apply (subst depthsFrom_unfold)
    apply (simp add: exa_fields(2,3) split: option.splits)
    apply (simp add: list_all_iff kids)
    done
qed

lemma exa_subpages_never_empty: "subpages (normalizeExaResultToCrawl L r u options d) \<noteq> Some []"
  by (simp add: exa_fields(3) split: option.splits)

lemma exa_no_subpages_when_zero:
  "orZero (maxSubpages options) = 0 \<Longrightarrow> subpages (normalizeExaResultToCrawl L r u options d) = None"
  by (simp add: exa_fields(3) slice0_def split: option.splits)

lemma cheerio_crawl_fields:
  assumes "normalizeCheerioResultToCrawl L rawHtml u options d = Inr result"
  shows "depth result = Some d" and "subpages result = None"
    and "\<exists>p0. normalizeCheerioResult L rawHtml u options = Inr p0
              \<and> text' result = text' p0 \<and> markdown result = markdown p0"
proof -
  obtain p0 where a: "normalizeCheerioResult L rawHtml u options = Inr p0"
    and b: "result = withDepth (Some d) p0"
    using assms by (auto simp add: normalizeCheerioResultToCrawl_def split: sum.splits)
  have "subpages p0 = None" using a by (rule cheerio_fields)
  then show "depth result = Some d" and "subpages result = None"
    and "\<exists>p0. normalizeCheerioResult L rawHtml u options = Inr p0
              \<and> text' result = text' p0 \<and> markdown result = markdown p0"
    using a b by (simp_all add: withDepth_def)
qed

lemma enter_wellFormed:
  "crawlRecursiveEnter L options V u d = (t, V') \<Longrightarrow> wellFormed L options d t"
  by (auto simp add: crawlRecursiveEnter_def split: if_splits)

lemma resume_wellFormed:
  assumes "\<not> maxDepthOf options < of_int d"
  shows "wellFormed L options d (crawlRecursiveResume L W options V u d)"
proof (cases "W u")
  case (Inl e)
  then show ?thesis by (simp add: crawlRecursiveResume_def)
next
  case (Inr response)
  show ?thesis
  proof (cases "normalizeCheerioResultToCrawl L (body response) u options d")
    case (Inl e)
    then show ?thesis using Inr by (simp add: crawlRecursiveResume_def)
  next
    case norm: (Inr result)
    have leaf: "wellFormed L options d (Finished (Inr result))"
      using crawled.leaf [OF norm assms] by simp
    show ?thesis
    proof (cases "extractLinks L (body response) u (sameDomainOnly options \<noteq> Some False)")
      case (Inl e)
      then show ?thesis using Inr norm leaf by (simp add: crawlRecursiveResume_def)
    next
      case links: (Inr links)
      have "wellFormed L options d (Mapping result d (map Pending ls))"
        if "of_int d < maxDepthOf options" "0 < maxSubpagesOf options" for ls
        using that norm by auto
      then show ?thesis
        using Inr norm links leaf by (simp add: crawlRecursiveResume_def)
    qed
  qed
qed

lemma pMapStart_wellFormed:
  "pMapStart L options d free V ts = (ts', V') \<Longrightarrow> \<forall>t \<in> set ts. wellFormed L options d t
     \<Longrightarrow> \<forall>t \<in> set ts'. wellFormed L options d t"
proof (induction L options d free V ts arbitrary: ts' V' rule: pMapStart.induct)
  case (1 L options d free V)
  then show ?case by simp
next
  case (2 L options d free V link ts)
  show ?case
  proof (cases "free = 0")
    case True
    then show ?thesis using "2.prems" by auto
  next
    case False
    obtain t V1 where e: "crawlRecursiveEnter L options V link d = (t, V1)"
      by (cases "crawlRecursiveEnter L options V link d")
    obtain ts1 V2 where s: "pMapStart L options d (if isFinished t then free else free - 1) V1 ts = (ts1, V2)"
      by (cases "pMapStart L options d (if isFinished t then free else free - 1) V1 ts")
    have "\<forall>t \<in> set ts1. wellFormed L options d t"
      using "2.IH" [OF False e [symmetric] s] "2.prems"(2) by simp
    moreover have "wellFormed L options d t" using enter_wellFormed [OF e] .
    moreover have "ts' = t # ts1" using "2.prems"(1) False e s by simp
    ultimately show ?thesis by simp
  qed
next
  case (3 L options d free V u k ts)
  obtain ts1 V1 where s: "pMapStart L options d free V ts = (ts1, V1)"
    by (cases "pMapStart L options d free V ts")
  have "\<forall>t \<in> set ts1. wellFormed L options d t" using "3.IH" [OF s] "3.prems"(2) by simp
  moreover have "ts' = Fetching u k # ts1" using "3.prems"(1) s by simp
  moreover have "wellFormed L options d (Fetching u k)" using "3.prems"(2) by simp
  ultimately show ?case by simp
next
  case (4 L options d free V result k cs ts)
  obtain ts1 V1 where s: "pMapStart L options d free V ts = (ts1, V1)"
    by (cases "pMapStart L options d free V ts")
  have "\<forall>t \<in> set ts1. wellFormed L options d t" using "4.IH" [OF s] "4.prems"(2) by simp
  moreover have "ts' = Mapping result k cs # ts1" using "4.prems"(1) s by simp
  moreover have "wellFormed L options d (Mapping result k cs)" using "4.prems"(2) by simp
  ultimately show ?case by (simp del: wellFormed.simps)
next
  case (5 L options d free V r ts)
  obtain ts1 V1 where s: "pMapStart L options d free V ts = (ts1, V1)"
    by (cases "pMapStart L options d free V ts")
  have "\<forall>t \<in> set ts1. wellFormed L options d t" using "5.IH" [OF s] "5.prems"(2) by simp
  moreover have "ts' = Finished r # ts1" using "5.prems"(1) s by simp
  moreover have "wellFormed L options d (Finished r)" using "5.prems"(2) by simp
  ultimately show ?case by (simp del: wellFormed.simps)
qed

lemma mapped_set: "c \<in> set (List.map_filter mapped ts) \<longleftrightarrow> Finished (Inr c) \<in> set ts"
proof (induction ts)
  case Nil
  then show ?case by (simp add: List.map_filter_simps)
next
  case (Cons t ts)
  show ?case
  proof (cases "mapped t")
    case None
    then have "t \<noteq> Finished (Inr c)" by auto
    then show ?thesis using None Cons by (auto simp add: List.map_filter_simps)
  next
    case (Some p)
    then have "t = Finished (Inr p)" by (cases t rule: mapped.cases) simp_all
    then show ?thesis using Cons by (auto simp add: List.map_filter_simps)
  qed
qed

lemma settle_wellFormed:
  "settle L options V t = (t', V') \<Longrightarrow> wellFormed L options d t \<Longrightarrow> wellFormed L options d t'"
  "settleAll L options V ts = (ts', V') \<Longrightarrow> \<forall>t \<in> set ts. wellFormed L options d t
     \<Longrightarrow> \<forall>t \<in> set ts'. wellFormed L options d t"
proof (induction L options V t and L options V ts arbitrary: t' V' d and ts' V' d
         rule: settle_settleAll.induct)
  case (1 L options V result k ts)
  obtain ts1 V1 where a: "settleAll L options V ts = (ts1, V1)"
    by (cases "settleAll L options V ts")
  obtain ts2 V2 where b: "pMapStart L options (k + 1) (freeSlots options ts1) V1 ts1 = (ts2, V2)"
    by (cases "pMapStart L options (k + 1) (freeSlots options ts1) V1 ts1")
  have kd: "k = d" and norm: "\<exists>rawHtml u. normalizeCheerioResultToCrawl L rawHtml u options d = Inr result"
    and lt: "of_int d < maxDepthOf options" "0 < maxSubpagesOf options"
    and kids: "\<forall>t \<in> set ts. wellFormed L options (d + 1) t"
    using "1.prems"(2) by auto
  have "\<forall>t \<in> set ts1. wellFormed L options (d + 1) t"
    using "1.IH" [OF a] kids by simp
  then have k2: "\<forall>t \<in> set ts2. wellFormed L options (d + 1) t"
    using pMapStart_wellFormed [OF b [unfolded kd]] by simp
  show ?case
  proof (cases "list_all isFinished ts2")
    case False
    then have "t' = Mapping result k ts2" using "1.prems"(1) a b by simp
    then show ?thesis using kd norm lt k2 by auto
  next
    case True
    then have t': "t' = Finished (Inr (withSubpages (Some (List.map_filter mapped ts2)) result))"
      using "1.prems"(1) a b by simp
    have "crawled L options (d + 1) c" if "c \<in> set (List.map_filter mapped ts2)" for c
    proof -
      have "Finished (Inr c) \<in> set ts2" using that by (simp add: mapped_set)
      then have "wellFormed L options (d + 1) (Finished (Inr c))" using k2 by blast
      then show ?thesis by simp
    qed
    then have "\<forall>c \<in> set (List.map_filter mapped ts2). crawled L options (d + 1) c" by blast
    then show ?thesis
      unfolding t' using norm lt by (auto intro: crawled.node)
  qed
next
  case (2 L options V link)
  then show ?case by auto
next
  case (3 L options V u k)
  then show ?case by auto
next
  case (4 L options V r)
  then show ?case by auto
next
  case (5 L options V)
  then show ?case by auto
next
  case (6 L options V t ts)
  obtain t1 V1 where a: "settle L options V t = (t1, V1)" by (cases "settle L options V t")
  obtain ts1 V2 where b: "settleAll L options V1 ts = (ts1, V2)" by (cases "settleAll L options V1 ts")
  have "wellFormed L options d t1" using "6.IH"(1) [OF a] "6.prems"(2) by simp
  moreover have "\<forall>t \<in> set ts1. wellFormed L options d t"
    using "6.IH"(2) [OF a [symmetric] b] "6.prems"(2) by simp
  moreover have "ts' = t1 # ts1" using "6.prems"(1) a b by simp
  ultimately show ?case by simp
qed

lemma complete_wellFormed:
  "wellFormed L options d t \<Longrightarrow> wellFormed L options d (complete L W options V u t)"
proof (induction L W options V u t arbitrary: d rule: complete.induct)
  case (1 L W options V u currentUrl k)
  then show ?case using resume_wellFormed by auto
next
  case (2 L W options V u result k ts)
  then show ?case by auto
next
  case (3 L W options V u link)
  then show ?case by simp
next
  case (4 L W options V u r)
  then show ?case by simp
qed

lemma crawlRuns_wellFormed:
  "crawlRuns L W options V t r \<Longrightarrow> wellFormed L options d t \<Longrightarrow> wellFormed L options d (Finished r)"
proof (induction rule: crawlRuns.induct)
  case (returned V r)
  then show ?case .
next
  case (arrived u t V t' V' r)
  have "wellFormed L options d (complete L W options V u t)"
    using complete_wellFormed arrived.prems by simp
  then have "wellFormed L options d t'" using settle_wellFormed(1) [OF arrived.hyps(2)] by simp
  then show ?case using arrived.IH by simp
qed

lemma cheerioCrawl_crawled:
  assumes "cheerioCrawl L W u options (Inr page)"
  shows "crawled L options 0 page"
proof -
  obtain t V where e: "crawlRecursiveEnter L options {} u 0 = (t, V)"
    by (cases "crawlRecursiveEnter L options {} u 0")
  have "crawlRuns L W options V t (Inr page)" using assms e by (simp add: cheerioCrawl_def)
  then have "wellFormed L options 0 (Finished (Inr page))"
    using crawlRuns_wellFormed enter_wellFormed [OF e] by blast
  then show ?thesis by simp
qed


text \<open>
  A settled task is left as it is by \<open>settle\<close>, so after a response only the calls
  between the task that received it and the root move. Each response lowers the weight,
  and a settled task that has not returned awaits a response: every crawl ends.
\<close>

lemma pMapStart_none_pending:
  "\<forall>t \<in> set ts. \<not> isPending t \<Longrightarrow> pMapStart L options k free V ts = (ts, V)"
proof (induction ts)
  case Nil
  then show ?case by simp
next
  case (Cons t ts)
  then show ?case by (cases t) simp_all
qed

lemma pMapStart_no_slot: "pMapStart L options k 0 V ts = (ts, V)"
proof (induction ts)
  case Nil
  then show ?case by simp
next
  case (Cons t ts)
  then show ?case by (cases t) simp_all
qed

lemma settled_stays:
  "settled options t \<Longrightarrow> settle L options V t = (t, V)"
  "\<forall>t \<in> set ts. settled options t \<Longrightarrow> settleAll L options V ts = (ts, V)"
proof (induction L options V t and L options V ts rule: settle_settleAll.induct)
  case (1 L options V result d ts)
  have a: "settleAll L options V ts = (ts, V)" using "1.IH" "1.prems" by simp
  have "pMapStart L options (d + 1) (freeSlots options ts) V ts = (ts, V)"
  proof (cases "\<forall>t \<in> set ts. \<not> isPending t")
    case True
    then show ?thesis by (rule pMapStart_none_pending)
  next
    case False
    then have "freeSlots options ts = 0" using "1.prems" by (auto simp add: freeSlots_def)
    then show ?thesis by (simp add: pMapStart_no_slot)
  qed
  then show ?case using a "1.prems" by simp
next
  case (2 L options V link)
  then show ?case by simp
next
  case (3 L options V u d)
  then show ?case by simp
next
  case (4 L options V r)
  then show ?case by simp
next
  case (5 L options V)
  then show ?case by simp
next
  case (6 L options V t ts)
  then show ?case by simp
qed

lemma budget_pos: "0 < budget b k"
  by (cases k) simp_all

lemma levels_step: "of_int d < maxDepthOf options \<Longrightarrow> levels options d = Suc (levels options (d + 1))"
proof -
  assume "of_int d < maxDepthOf options"
  then have "d < \<lceil>maxDepthOf options\<rceil>" by (simp add: less_ceiling_iff)
  then show ?thesis by (simp add: levels_def)
qed

lemma slice0_length: "0 < m \<Longrightarrow> length (slice0 xs m) \<le> nat (toInteger m)"
  by (simp add: slice0_def toInteger_def)

lemma weight_pending: "sum_list (map (weight options d) (map Pending ls)) = length ls * budget (fanOut options) (levels options d)"
  by (induction ls) simp_all

lemma resume_weight:
  "weight options d (crawlRecursiveResume L W options V u d) < budget (fanOut options) (levels options d)"
proof -
  have m: "weight options d (Mapping result d (map Pending (slice0 ls (maxSubpagesOf options))))
             < budget (fanOut options) (levels options d)"
    if a: "of_int d < maxDepthOf options" and b: "0 < maxSubpagesOf options" for result ls
  proof -
    have "length (slice0 ls (maxSubpagesOf options)) \<le> fanOut options"
      using slice0_length [OF b] by (simp add: fanOut_def)
    then have "length (slice0 ls (maxSubpagesOf options)) * budget (fanOut options) (levels options (d + 1))
                 \<le> fanOut options * budget (fanOut options) (levels options (d + 1))"
      by (rule mult_le_mono1)
    moreover have "weight options d (Mapping result d (map Pending (slice0 ls (maxSubpagesOf options))))
             = length (slice0 ls (maxSubpagesOf options)) * budget (fanOut options) (levels options (d + 1))"
      using weight_pending [of options "d + 1"] by simp
    moreover have "budget (fanOut options) (levels options d)
             = 1 + fanOut options * budget (fanOut options) (levels options (d + 1))"
      by (simp add: levels_step [OF a])
    ultimately show ?thesis by linarith
  qed
  show ?thesis
    unfolding crawlRecursiveResume_def
    using m by (auto simp add: budget_pos split: sum.splits)
qed

lemma sum_list_mono_strict:
  fixes f g :: "'a \<Rightarrow> nat"
  assumes "\<forall>x \<in> set xs. f x \<le> g x" and "\<exists>x \<in> set xs. f x < g x"
  shows "sum_list (map f xs) < sum_list (map g xs)"
  using assms
proof (induction xs)
  case Nil
  then show ?case by simp
next
  case (Cons x xs)
  have le: "sum_list (map f xs) \<le> sum_list (map g xs)"
    using Cons.prems(1) by (intro sum_list_mono) simp
  show ?case
  proof (cases "f x < g x")
    case True
    then show ?thesis using le by simp
  next
    case False
    then have "\<exists>y \<in> set xs. f y < g y" using Cons.prems(2) by auto
    then have "sum_list (map f xs) < sum_list (map g xs)" using Cons.IH Cons.prems(1) by simp
    moreover have "f x \<le> g x" using Cons.prems(1) by simp
    ultimately show ?thesis by simp
  qed
qed

lemma complete_weight:
  "wellFormed L options d t \<Longrightarrow>
     weight options d (complete L W options V u t) \<le> weight options d t
     \<and> (u \<in> set (awaited t) \<longrightarrow> weight options d (complete L W options V u t) < weight options d t)"
proof (induction L W options V u t arbitrary: d rule: complete.induct)
  case (1 L W options V u currentUrl k)
  then have "k = d" by simp
  then show ?case using resume_weight [of options d L W V currentUrl] by auto
next
  case (2 L W options V u result k ts)
  have kids: "\<forall>t \<in> set ts. wellFormed L options (d + 1) t" using "2.prems" by simp
  have each: "weight options (d + 1) (complete L W options V u t) \<le> weight options (d + 1) t
     \<and> (u \<in> set (awaited t) \<longrightarrow> weight options (d + 1) (complete L W options V u t) < weight options (d + 1) t)"
    if "t \<in> set ts" for t
    using "2.IH" [OF that] kids that by blast
  have le: "sum_list (map (\<lambda>t. weight options (d + 1) (complete L W options V u t)) ts)
              \<le> sum_list (map (weight options (d + 1)) ts)"
    using each by (intro sum_list_mono) simp
  have lt: "sum_list (map (\<lambda>t. weight options (d + 1) (complete L W options V u t)) ts)
              < sum_list (map (weight options (d + 1)) ts)"
    if mem: "u \<in> set (awaited (Mapping result k ts))"
  proof (rule sum_list_mono_strict)
    show "\<forall>t \<in> set ts. weight options (d + 1) (complete L W options V u t) \<le> weight options (d + 1) t"
      using each by simp
    obtain t where "t \<in> set ts" and "u \<in> set (awaited t)" using mem by auto
    then show "\<exists>t \<in> set ts. weight options (d + 1) (complete L W options V u t) < weight options (d + 1) t"
      using each by blast
  qed
  show ?case using le lt by (simp add: comp_def)
next
  case (3 L W options V u link)
  then show ?case by simp
next
  case (4 L W options V u r)
  then show ?case by simp
qed

lemma enter_weight:
  "crawlRecursiveEnter L options V u k = (t, V') \<Longrightarrow> weight options d t \<le> budget (fanOut options) (levels options d)"
  by (auto simp add: crawlRecursiveEnter_def split: if_splits)

lemma pMapStart_weight:
  "pMapStart L options k free V ts = (ts', V') \<Longrightarrow>
     sum_list (map (weight options d) ts') \<le> sum_list (map (weight options d) ts)"
proof (induction L options k free V ts arbitrary: ts' V' rule: pMapStart.induct)
  case (1 L options k free V)
  then show ?case by simp
next
  case (2 L options k free V link ts)
  show ?case
  proof (cases "free = 0")
    case True
    then show ?thesis using "2.prems" by auto
  next
    case False
    obtain t V1 where e: "crawlRecursiveEnter L options V link k = (t, V1)"
      by (cases "crawlRecursiveEnter L options V link k")
    obtain ts1 V2 where s: "pMapStart L options k (if isFinished t then free else free - 1) V1 ts = (ts1, V2)"
      by (cases "pMapStart L options k (if isFinished t then free else free - 1) V1 ts")
    have "sum_list (map (weight options d) ts1) \<le> sum_list (map (weight options d) ts)"
      using "2.IH" [OF False e [symmetric] s] .
    moreover have "weight options d t \<le> budget (fanOut options) (levels options d)"
      using enter_weight [OF e] .
    moreover have "ts' = t # ts1" using "2.prems"(1) False e s by simp
    ultimately show ?thesis by simp
  qed
next
  case (3 L options k free V u j ts)
  obtain ts1 V1 where s: "pMapStart L options k free V ts = (ts1, V1)"
    by (cases "pMapStart L options k free V ts")
  have "ts' = Fetching u j # ts1" using "3.prems"(1) s by simp
  then show ?case using "3.IH" [OF s] by simp
next
  case (4 L options k free V result j cs ts)
  obtain ts1 V1 where s: "pMapStart L options k free V ts = (ts1, V1)"
    by (cases "pMapStart L options k free V ts")
  have "ts' = Mapping result j cs # ts1" using "4.prems"(1) s by simp
  then show ?case using "4.IH" [OF s] by simp
next
  case (5 L options k free V r ts)
  obtain ts1 V1 where s: "pMapStart L options k free V ts = (ts1, V1)"
    by (cases "pMapStart L options k free V ts")
  have "ts' = Finished r # ts1" using "5.prems"(1) s by simp
  then show ?case using "5.IH" [OF s] by simp
qed

lemma settle_weight:
  "settle L options V t = (t', V') \<Longrightarrow> weight options d t' \<le> weight options d t"
  "settleAll L options V ts = (ts', V') \<Longrightarrow>
     sum_list (map (weight options d) ts') \<le> sum_list (map (weight options d) ts)"
proof (induction L options V t and L options V ts arbitrary: t' V' d and ts' V' d
         rule: settle_settleAll.induct)
  case (1 L options V result k ts)
  obtain ts1 V1 where a: "settleAll L options V ts = (ts1, V1)"
    by (cases "settleAll L options V ts")
  obtain ts2 V2 where b: "pMapStart L options (k + 1) (freeSlots options ts1) V1 ts1 = (ts2, V2)"
    by (cases "pMapStart L options (k + 1) (freeSlots options ts1) V1 ts1")
  have "sum_list (map (weight options (d + 1)) ts2) \<le> sum_list (map (weight options (d + 1)) ts1)"
    using pMapStart_weight [OF b] .
  also have "\<dots> \<le> sum_list (map (weight options (d + 1)) ts)"
    using "1.IH" [OF a] .
  finally have le: "sum_list (map (weight options (d + 1)) ts2) \<le> sum_list (map (weight options (d + 1)) ts)" .
  show ?case
  proof (cases "list_all isFinished ts2")
    case True
    then have "t' = Finished (Inr (withSubpages (Some (List.map_filter mapped ts2)) result))"
      using "1.prems" a b by simp
    then show ?thesis by simp
  next
    case False
    then have "t' = Mapping result k ts2" using "1.prems" a b by simp
    then show ?thesis using le by simp
  qed
next
  case (2 L options V link)
  then show ?case by auto
next
  case (3 L options V u k)
  then show ?case by auto
next
  case (4 L options V r)
  then show ?case by auto
next
  case (5 L options V)
  then show ?case by auto
next
  case (6 L options V t ts)
  obtain t1 V1 where a: "settle L options V t = (t1, V1)" by (cases "settle L options V t")
  obtain ts1 V2 where b: "settleAll L options V1 ts = (ts1, V2)" by (cases "settleAll L options V1 ts")
  have "weight options d t1 \<le> weight options d t" using "6.IH"(1) [OF a] .
  moreover have "sum_list (map (weight options d) ts1) \<le> sum_list (map (weight options d) ts)"
    using "6.IH"(2) [OF a [symmetric] b] .
  moreover have "ts' = t1 # ts1" using "6.prems" a b by simp
  ultimately show ?case by simp
qed


lemma enter_sound:
  "crawlRecursiveEnter L options V u d = (t, V') \<Longrightarrow> settled options t \<and> \<not> isPending t"
  by (auto simp add: crawlRecursiveEnter_def split: if_splits)

lemma resume_sound:
  "sound options (crawlRecursiveResume L W options V u d)
   \<and> \<not> isPending (crawlRecursiveResume L W options V u d)"
  unfolding crawlRecursiveResume_def by (auto split: sum.splits)

lemma complete_sound:
  "sound options t \<Longrightarrow> sound options (complete L W options V u t)"
  by (induction L W options V u t rule: complete.induct) (simp_all add: resume_sound)

lemma complete_not_pending:
  "\<not> isPending t \<Longrightarrow> \<not> isPending (complete L W options V u t)"
  by (cases t) (simp_all add: resume_sound)

lemma settled_sound: "settled options t \<Longrightarrow> sound options t"
  by (induction options t rule: settled.induct) simp_all

lemma settle_not_pending:
  "\<not> isPending t \<Longrightarrow> \<not> isPending (fst (settle L options V t))"
  by (cases t) (simp_all split: prod.splits)

lemma pMapStart_settled:
  "pMapStart L options k free V ts = (ts', V') \<Longrightarrow> \<forall>t \<in> set ts. settled options t
     \<Longrightarrow> \<forall>t \<in> set ts'. settled options t"
proof (induction L options k free V ts arbitrary: ts' V' rule: pMapStart.induct)
  case (1 L options k free V)
  then show ?case by simp
next
  case (2 L options k free V link ts)
  show ?case
  proof (cases "free = 0")
    case True
    then show ?thesis using "2.prems" by auto
  next
    case False
    obtain t V1 where e: "crawlRecursiveEnter L options V link k = (t, V1)"
      by (cases "crawlRecursiveEnter L options V link k")
    obtain ts1 V2 where s: "pMapStart L options k (if isFinished t then free else free - 1) V1 ts = (ts1, V2)"
      by (cases "pMapStart L options k (if isFinished t then free else free - 1) V1 ts")
    have "\<forall>t \<in> set ts1. settled options t"
      using "2.IH" [OF False e [symmetric] s] "2.prems"(2) by simp
    moreover have "settled options t" using enter_sound [OF e] by simp
    moreover have "ts' = t # ts1" using "2.prems"(1) False e s by simp
    ultimately show ?thesis by simp
  qed
next
  case (3 L options k free V u j ts)
  obtain ts1 V1 where s: "pMapStart L options k free V ts = (ts1, V1)"
    by (cases "pMapStart L options k free V ts")
  have "\<forall>t \<in> set ts1. settled options t" using "3.IH" [OF s] "3.prems"(2) by simp
  moreover have "ts' = Fetching u j # ts1" using "3.prems"(1) s by simp
  ultimately show ?case by simp
next
  case (4 L options k free V result j cs ts)
  obtain ts1 V1 where s: "pMapStart L options k free V ts = (ts1, V1)"
    by (cases "pMapStart L options k free V ts")
  have "\<forall>t \<in> set ts1. settled options t" using "4.IH" [OF s] "4.prems"(2) by simp
  moreover have "ts' = Mapping result j cs # ts1" using "4.prems"(1) s by simp
  moreover have "settled options (Mapping result j cs)" using "4.prems"(2) by simp
  ultimately show ?case by (simp del: settled.simps)
next
  case (5 L options k free V r ts)
  obtain ts1 V1 where s: "pMapStart L options k free V ts = (ts1, V1)"
    by (cases "pMapStart L options k free V ts")
  have "\<forall>t \<in> set ts1. settled options t" using "5.IH" [OF s] "5.prems"(2) by simp
  moreover have "ts' = Finished r # ts1" using "5.prems"(1) s by simp
  ultimately show ?case by simp
qed

lemma pMapStart_fills:
  "pMapStart L options k free V ts = (ts', V') \<Longrightarrow>
     (\<forall>t \<in> set ts'. \<not> isPending t)
     \<or> free + length (filter unresolved ts) \<le> length (filter unresolved ts')"
proof (induction L options k free V ts arbitrary: ts' V' rule: pMapStart.induct)
  case (1 L options k free V)
  then show ?case by simp
next
  case (2 L options k free V link ts)
  show ?case
  proof (cases "free = 0")
    case True
    then show ?thesis using "2.prems" by auto
  next
    case False
    obtain t V1 where e: "crawlRecursiveEnter L options V link k = (t, V1)"
      by (cases "crawlRecursiveEnter L options V link k")
    obtain ts1 V2 where s: "pMapStart L options k (if isFinished t then free else free - 1) V1 ts = (ts1, V2)"
      by (cases "pMapStart L options k (if isFinished t then free else free - 1) V1 ts")
    have ih: "(\<forall>t \<in> set ts1. \<not> isPending t)
       \<or> (if isFinished t then free else free - 1) + length (filter unresolved ts)
           \<le> length (filter unresolved ts1)"
      using "2.IH" [OF False e [symmetric] s] .
    have t': "ts' = t # ts1" using "2.prems"(1) False e s by simp
    have np: "\<not> isPending t" using enter_sound [OF e] by simp
    have shape: "(isFinished t \<and> \<not> unresolved t) \<or> (\<not> isFinished t \<and> unresolved t)"
      using e by (auto simp add: crawlRecursiveEnter_def split: if_splits)
    show ?thesis
      unfolding t' using ih np shape False by auto
  qed
next
  case (3 L options k free V u j ts)
  obtain ts1 V1 where s: "pMapStart L options k free V ts = (ts1, V1)"
    by (cases "pMapStart L options k free V ts")
  have "ts' = Fetching u j # ts1" using "3.prems"(1) s by simp
  then show ?case using "3.IH" [OF s] by auto
next
  case (4 L options k free V result j cs ts)
  obtain ts1 V1 where s: "pMapStart L options k free V ts = (ts1, V1)"
    by (cases "pMapStart L options k free V ts")
  have "ts' = Mapping result j cs # ts1" using "4.prems"(1) s by simp
  then show ?case using "4.IH" [OF s] by auto
next
  case (5 L options k free V r ts)
  obtain ts1 V1 where s: "pMapStart L options k free V ts = (ts1, V1)"
    by (cases "pMapStart L options k free V ts")
  have "ts' = Finished r # ts1" using "5.prems"(1) s by simp
  then show ?case using "5.IH" [OF s] by auto
qed

lemma settle_settled:
  "settle L options V t = (t', V') \<Longrightarrow> sound options t \<Longrightarrow> settled options t'"
  "settleAll L options V ts = (ts', V') \<Longrightarrow> \<forall>t \<in> set ts. sound options t
     \<Longrightarrow> \<forall>t \<in> set ts'. settled options t"
proof (induction L options V t and L options V ts arbitrary: t' V' and ts' V'
         rule: settle_settleAll.induct)
  case (1 L options V result k ts)
  obtain ts1 V1 where a: "settleAll L options V ts = (ts1, V1)"
    by (cases "settleAll L options V ts")
  obtain ts2 V2 where b: "pMapStart L options (k + 1) (freeSlots options ts1) V1 ts1 = (ts2, V2)"
    by (cases "pMapStart L options (k + 1) (freeSlots options ts1) V1 ts1")
  have v: "validConcurrency (concurrencyOf options)" and kids: "\<forall>t \<in> set ts. sound options t"
    using "1.prems"(2) by simp_all
  have "\<forall>t \<in> set ts1. settled options t" using "1.IH" [OF a kids] .
  then have k2: "\<forall>t \<in> set ts2. settled options t" using pMapStart_settled [OF b] by simp
  have cap: "(\<forall>t \<in> set ts2. \<not> isPending t)
       \<or> nat (toInteger (concurrencyOf options)) \<le> length (filter unresolved ts2)"
    using pMapStart_fills [OF b] by (auto simp add: freeSlots_def)
  show ?case
  proof (cases "list_all isFinished ts2")
    case True
    then have "t' = Finished (Inr (withSubpages (Some (List.map_filter mapped ts2)) result))"
      using "1.prems"(1) a b by simp
    then show ?thesis by simp
  next
    case False
    then have "t' = Mapping result k ts2" using "1.prems"(1) a b by simp
    then show ?thesis using v False k2 cap by simp
  qed
next
  case (2 L options V link)
  then show ?case by auto
next
  case (3 L options V u k)
  then show ?case by auto
next
  case (4 L options V r)
  then show ?case by auto
next
  case (5 L options V)
  then show ?case by auto
next
  case (6 L options V t ts)
  obtain t1 V1 where a: "settle L options V t = (t1, V1)" by (cases "settle L options V t")
  obtain ts1 V2 where b: "settleAll L options V1 ts = (ts1, V2)" by (cases "settleAll L options V1 ts")
  have "settled options t1" using "6.IH"(1) [OF a] "6.prems"(2) by simp
  moreover have "\<forall>t \<in> set ts1. settled options t"
    using "6.IH"(2) [OF a [symmetric] b] "6.prems"(2) by simp
  moreover have "ts' = t1 # ts1" using "6.prems"(1) a b by simp
  ultimately show ?case by (simp del: settled.simps)
qed

lemma valid_slots: "validConcurrency c \<Longrightarrow> 0 < nat (toInteger c)"
  by (auto simp add: validConcurrency_def toInteger_def)

lemma awaits_something:
  "settled options t \<Longrightarrow> \<not> isFinished t \<Longrightarrow> \<not> isPending t \<Longrightarrow> awaited t \<noteq> []"
proof (induction t rule: awaited.induct)
  case (1 u d)
  then show ?case by simp
next
  case (2 result d ts)
  have v: "validConcurrency (concurrencyOf options)"
    and nf: "\<not> list_all isFinished ts"
    and kids: "\<forall>t \<in> set ts. settled options t"
    and cap: "(\<forall>t \<in> set ts. \<not> isPending t)
       \<or> nat (toInteger (concurrencyOf options)) \<le> length (filter unresolved ts)"
    using "2.prems"(1) by simp_all
  have "\<exists>c \<in> set ts. unresolved c"
  proof (rule ccontr)
    assume none: "\<not> (\<exists>c \<in> set ts. unresolved c)"
    then have "filter unresolved ts = []" by (simp add: filter_empty_conv)
    then have "\<forall>t \<in> set ts. \<not> isPending t" using cap valid_slots [OF v] by auto
    then have "isFinished t" if "t \<in> set ts" for t
      using none that by (cases t) auto
    then show False using nf by (simp add: list_all_iff)
  qed
  then obtain c where c: "c \<in> set ts" and u: "unresolved c" by blast
  have "\<not> isFinished c" "\<not> isPending c" using u by (cases c; simp)+
  then have "awaited c \<noteq> []" using "2.IH" [OF c] kids c by simp
  then show ?case using c by auto
next
  case (3 link)
  then show ?case by simp
next
  case (4 r)
  then show ?case by simp
qed

lemma crawl_ends_from:
  "wellFormed L options d t \<Longrightarrow> settled options t \<Longrightarrow> \<not> isPending t
     \<Longrightarrow> \<exists>r. crawlRuns L W options V t r"
proof (induction "weight options d t" arbitrary: t V rule: less_induct)
  case less
  show ?case
  proof (cases "isFinished t")
    case True
    then obtain r where "t = Finished r" by (cases t) auto
    then show ?thesis using crawlRuns.returned by blast
  next
    case False
    then obtain u where u: "u \<in> set (awaited t)"
      using awaits_something [OF less.prems(2) False less.prems(3)] by (cases "awaited t") auto
    obtain t' V' where s: "settle L options V (complete L W options V u t) = (t', V')"
      by (cases "settle L options V (complete L W options V u t)")
    have w1: "weight options d (complete L W options V u t) < weight options d t"
      using complete_weight [OF less.prems(1)] u by blast
    have w2: "weight options d t' \<le> weight options d (complete L W options V u t)"
      using settle_weight(1) [OF s] .
    have wf: "wellFormed L options d t'"
      using settle_wellFormed(1) [OF s] complete_wellFormed [OF less.prems(1)] by blast
    have st: "settled options t'"
      using settle_settled(1) [OF s] complete_sound [OF settled_sound [OF less.prems(2)]] by blast
    have np: "\<not> isPending t'"
      using settle_not_pending [OF complete_not_pending [OF less.prems(3)], of L options V L W options V u] s
      by simp
    obtain r where "crawlRuns L W options V' t' r"
      using less.hyps [of t', OF _ wf st np] w1 w2 by auto
    then show ?thesis using crawlRuns.arrived [OF u s] by blast
  qed
qed

lemma shaped_leaf:
  "depth page = Some d \<Longrightarrow> subpages page = None \<Longrightarrow> of_int d \<le> m \<Longrightarrow> shaped m d page"
  by (simp add: shaped_def depthsFrom_unfold [of d page] depthAtMost_def nodes_unfold [of page])

lemma shaped_node:
  assumes "depth result = Some d" and "of_int d \<le> m"
      and "\<forall>c \<in> set cs. shaped m (d + 1) c"
  shows "shaped m d (withSubpages (Some cs) result)"
proof -
  have s: "subpages (withSubpages (Some cs) result) = Some cs"
    and e: "depth (withSubpages (Some cs) result) = Some d"
    using assms(1) by (simp_all add: withSubpages_def)
  show ?thesis
    unfolding shaped_def depthAtMost_def
    apply (subst depthsFrom_unfold)
    apply (subst nodes_unfold)
    using assms(2,3)
    apply (simp add: s e list_all_concat list_all_iff shaped_def depthAtMost_def)
    done
qed

lemma crawled_shaped: "crawled L options d page \<Longrightarrow> shaped (maxDepthOf options) d page"
proof (induction rule: crawled.induct)
  case (leaf rawHtml u d result)
  then show ?case
    using cheerio_crawl_fields(1,2) [OF leaf(1)] by (intro shaped_leaf) auto
next
  case (node rawHtml u d result cs)
  then show ?case
    using cheerio_crawl_fields(1) [OF node(1)] by (intro shaped_node) auto
qed

lemma cheerio_crawl_page_within:
  assumes "normalizeCheerioResultToCrawl L rawHtml u options d = Inr result"
      and "maxChars options = Some n" and "0 < n"
  shows "withinMaxChars n result"
proof -
  obtain p0 where a: "normalizeCheerioResult L rawHtml u options = Inr p0"
    and b: "text' result = text' p0" "markdown result = markdown p0"
    using cheerio_crawl_fields(3) [OF assms(1)] by blast
  show ?thesis
    using cheerio_withinMaxChars [OF a assms(2,3)] b by (simp add: withinMaxChars_def)
qed

lemma withinMaxChars_withSubpages: "withinMaxChars n (withSubpages sp r) = withinMaxChars n r"
  by (simp add: withinMaxChars_def withSubpages_def)

lemma crawled_within:
  "crawled L options d page \<Longrightarrow> maxChars options = Some n \<Longrightarrow> 0 < n
     \<Longrightarrow> list_all (withinMaxChars n) (nodes page)"
proof (induction rule: crawled.induct)
  case (leaf rawHtml u d result)
  then show ?case
    using cheerio_crawl_page_within [OF leaf(1)] cheerio_crawl_fields(2) [OF leaf(1)]
    by (simp add: nodes_unfold [of result])
next
  case (node rawHtml u d result cs)
  have s: "subpages (withSubpages (Some cs) result) = Some cs"
    by (simp add: withSubpages_def)
  show ?case
    apply (subst nodes_unfold)
    using node cheerio_crawl_page_within [OF node(1)]
    apply (simp add: s withinMaxChars_withSubpages list_all_concat list_all_iff)
    done
qed

lemma crawled_no_subpages_when_zero:
  assumes "crawled L options d page" and "maxSubpagesOf options \<le> 0"
  shows "subpages page = None"
  using assms by (cases rule: crawled.cases) (auto simp add: cheerio_crawl_fields(2))

lemma batch_result:
  assumes "cheerioCrawlBatch L W urls options (Inr batch)" and "r \<in> set (results batch)"
  shows "\<exists>u. cheerioCrawl L W u options (Inr r)"
  using assms(1)
proof (cases rule: cheerioCrawlBatch.cases)
  case (mapped rs)
  then have "Inr r \<in> set rs"
    using assms(2) by (auto simp add: List.map_filter_def pageOf_def split: sum.splits)
  then obtain i where "i < length rs" and "rs ! i = Inr r" by (auto simp add: in_set_conv_nth)
  then have "cheerioCrawl L W (urls ! i) options (Inr r)"
    using mapped(3) by (auto simp add: list_all2_conv_all_nth)
  then show ?thesis by blast
qed

lemma firecrawl_root_fields:
  "depth (normalizeFirecrawlResultToCrawl d u k) = Some k"
  "subpages (normalizeFirecrawlResultToCrawl d u k) = None"
  by (simp_all add: normalizeFirecrawlResultToCrawl_def normalizeFirecrawlResult_def withDepth_def)

lemma subpageOptions_budget: "maxSubpagesOf (subpageOptions options) \<le> 0"
  by (simp add: subpageOptions_def maxSubpagesOf_def orZero_def)

lemma firecrawl_no_subpages_when_zero:
  assumes "firecrawlCrawl L W e response u options (Inr page)"
      and "orZero (maxSubpages options) = 0"
  shows "subpages page = None"
  using assms
  by (cases rule: firecrawlCrawl.cases)
     (auto simp add: firecrawl_root_fields wantsSubpages_def firecrawlCatch_def split: if_splits)

lemma firecrawl_depthsFrom:
  assumes "firecrawlCrawl L W e response u options (Inr page)"
  shows "depthsFrom 0 page"
  using assms
proof (cases rule: firecrawlCrawl.cases)
  case (failed error)
  then show ?thesis by (simp add: firecrawlCatch_def split: if_splits)
next
  case (single resp)
  then show ?thesis by (subst depthsFrom_unfold) (simp add: firecrawl_root_fields)
next
  case (batchFailed resp links error)
  then show ?thesis by (simp add: firecrawlCatch_def split: if_splits)
next
  case (withSubpages resp links subpageResults)
  have kid: "depthsFrom 1 (withDepth (Some ((case depth c of None \<Rightarrow> 0 | Some k \<Rightarrow> k) + 1)) c)"
    if mem: "c \<in> set (results subpageResults)" for c
  proof -
    obtain u' where "cheerioCrawl L W u' (subpageOptions options) (Inr c)"
      using batch_result [OF withSubpages(6) mem] by blast
    then have c: "crawled L (subpageOptions options) 0 c" by (rule cheerioCrawl_crawled)
    have s: "subpages c = None"
      using crawled_no_subpages_when_zero [OF c subpageOptions_budget] .
    have "depthsFrom 0 c" using crawled_shaped [OF c] by (simp add: shaped_def)
    then have d: "depth c = Some 0" by (subst (asm) depthsFrom_unfold) simp
    show ?thesis
      by (subst depthsFrom_unfold) (simp add: withDepth_def s d)
  qed
  show ?thesis
    unfolding withSubpages(1) sum.inject
    apply (subst depthsFrom_unfold)
    using kid
    apply (simp add: withSubpages_def firecrawl_root_fields list_all_iff)
    done
qed

proposition crawl_ends: "\<exists>r. cheerioCrawl L W u options r"
proof -
  obtain t V where e: "crawlRecursiveEnter L options {} u 0 = (t, V)"
    by (cases "crawlRecursiveEnter L options {} u 0")
  have "\<exists>r. crawlRuns L W options V t r"
    using crawl_ends_from [OF enter_wellFormed [OF e]] enter_sound [OF e] by blast
  then show ?thesis by (simp add: cheerioCrawl_def e)
qed


proposition maxChars_respected:
  assumes "maxChars options = Some n" and "0 < n"
  shows "normalizeCheerioResult L rawHtml u options = Inr page \<Longrightarrow> withinMaxChars n page"
    and "cheerioCrawl L W u options (Inr page) \<Longrightarrow> list_all (withinMaxChars n) (nodes page)"
    and "list_all (withinMaxChars n) (nodes (normalizeExaResultToCrawl L r u options d))"
proof -
  show "normalizeCheerioResult L rawHtml u options = Inr page \<Longrightarrow> withinMaxChars n page"
    using cheerio_withinMaxChars assms by blast
  show "cheerioCrawl L W u options (Inr page) \<Longrightarrow> list_all (withinMaxChars n) (nodes page)"
    using crawled_within [OF cheerioCrawl_crawled assms] .
  show "list_all (withinMaxChars n) (nodes (normalizeExaResultToCrawl L r u options d))"
    using exa_nodes_within assms by blast
qed

proposition child_depths_follow_parent:
  shows "depthsFrom 0 (normalizeExaResultToCrawl L r u options 0)"
    and "cheerioCrawl L W u options (Inr page) \<Longrightarrow> depthsFrom 0 page"
    and "firecrawlCrawl L W e response u options (Inr page) \<Longrightarrow> depthsFrom 0 page"
proof -
  show "depthsFrom 0 (normalizeExaResultToCrawl L r u options 0)"
    by (rule exa_depthsFrom)
  show "cheerioCrawl L W u options (Inr page) \<Longrightarrow> depthsFrom 0 page"
    using crawled_shaped [OF cheerioCrawl_crawled] by (simp add: shaped_def)
  show "firecrawlCrawl L W e response u options (Inr page) \<Longrightarrow> depthsFrom 0 page"
    by (rule firecrawl_depthsFrom)
qed

proposition cheerio_depth_bounded:
  assumes "cheerioCrawl L W u options (Inr page)"
  shows "depthAtMost (maxDepthOf options) page"
  using crawled_shaped [OF cheerioCrawl_crawled [OF assms]] by (simp add: shaped_def)

proposition no_subpages_without_budget:
  assumes "maxSubpages options = None \<or> maxSubpages options = Some 0"
  shows "subpages (normalizeExaResultToCrawl L r u options d) = None"
    and "cheerioCrawl L W u options (Inr page) \<Longrightarrow> subpages page = None"
    and "firecrawlCrawl L W e response u options (Inr page) \<Longrightarrow> subpages page = None"
proof -
  have z: "orZero (maxSubpages options) = 0" "maxSubpagesOf options \<le> 0"
    using assms by (auto simp add: orZero_def maxSubpagesOf_def)
  show "subpages (normalizeExaResultToCrawl L r u options d) = None"
    using z(1) by (rule exa_no_subpages_when_zero)
  show "cheerioCrawl L W u options (Inr page) \<Longrightarrow> subpages page = None"
    using crawled_no_subpages_when_zero [OF cheerioCrawl_crawled z(2)] .
  show "firecrawlCrawl L W e response u options (Inr page) \<Longrightarrow> subpages page = None"
    using firecrawl_no_subpages_when_zero z(1) by blast
qed


end
